theory Spec2Isabelle
  imports Complex_Main "HOL-Library.Monad_Syntax" "HOL-Library.Multiset"
begin

section \<open>Data model of \<^verbatim>\<open>src/app/page.tsx\<close>\<close>

text \<open>
  A JavaScript \<^verbatim>\<open>number\<close> that holds a score or a similarity is modelled as a
  \<^typ>\<open>real\<close>: in the graph build every value is finite and arithmetic is exact. The
  similarity and the explanation are modelled a second time with the rounding of double
  precision written out, and the similarity a third time with the exponent range of a
  double, the infinities and \<^verbatim>\<open>NaN\<close>, for the statements that depend on them.
  Array indices and counters are \<^typ>\<open>nat\<close>.
\<close>

record SentimentScores =
  moody :: real
  scientific :: real
  optimistic :: real
  philosophical :: real
  adventurous :: real

text \<open>
  \<^verbatim>\<open>interface BookNode\<close>. The field \<^verbatim>\<open>id\<close> is called \<open>id_node\<close> here, since
  \<open>id\<close> is the identity function of HOL. The optional layout fields that
  \<^verbatim>\<open>d3.SimulationNodeDatum\<close> contributes are never read by the functions below.
\<close>

record BookNode =
  id_node :: string
  title :: string
  author :: string
  genre :: string
  year :: int
  coverUrl :: "string option"
  description :: "string option"
  sentimentScores :: SentimentScores

record GraphLink =
  source :: string
  target :: string
  similarityWeight :: real
  reason :: string

section \<open>\<^verbatim>\<open>calculateSimilarity\<close>\<close>

definition vec :: "SentimentScores \<Rightarrow> real list" where
  "vec a = [moody a, scientific a, optimistic a, philosophical a, adventurous a]"

text \<open>\<^verbatim>\<open>aVec.reduce((sum, val, i) => sum + val * bVec[i], 0)\<close>\<close>

definition dotProduct :: "real list \<Rightarrow> real list \<Rightarrow> real" where
  "dotProduct aVec bVec =
     foldl (\<lambda>sum (i, val). sum + val * bVec ! i) 0 (enumerate 0 aVec)"

text \<open>\<^verbatim>\<open>Math.sqrt(aVec.reduce((sum, val) => sum + val * val, 0))\<close>\<close>

definition magnitude :: "real list \<Rightarrow> real" where
  "magnitude aVec = sqrt (foldl (\<lambda>sum val. sum + val * val) 0 aVec)"

definition calculateSimilarity :: "SentimentScores \<Rightarrow> SentimentScores \<Rightarrow> real" where
  "calculateSimilarity a b =
     (let aVec = vec a;
          bVec = vec b;
          dotProduct = dotProduct aVec bVec;
          magnitudeA = magnitude aVec;
          magnitudeB = magnitude bVec
      in if magnitudeA = 0 \<or> magnitudeB = 0 then 0
         else dotProduct / (magnitudeA * magnitudeB))"

subsection \<open>The same computation in double precision\<close>

text \<open>
  A JavaScript \<^verbatim>\<open>number\<close> is an IEEE-754 double, and each arithmetic operation computes
  the exact result and rounds it to the nearest double, a tie going to the even
  significand. \<open>fl x\<close> is that rounding to 53 significant bits. The exponent is not
  bounded here, so overflow, subnormal numbers, the infinities and \<^verbatim>\<open>NaN\<close> are absent.
  \<^verbatim>\<open>Math.sqrt\<close> is taken to round correctly, as IEEE-754 requires of the square root.
\<close>

definition round_ties_even :: "real \<Rightarrow> int" where
  "round_ties_even y =
     (let f = \<lfloor>y\<rfloor>
      in if y - of_int f < 1 / 2 then f
         else if 1 / 2 < y - of_int f then f + 1
         else if even f then f else f + 1)"

definition fl :: "real \<Rightarrow> real" where
  "fl x =
     (if x = 0 then 0
      else let e = \<lfloor>log 2 \<bar>x\<bar>\<rfloor> - 52
           in sgn x * of_int (round_ties_even (\<bar>x\<bar> / 2 powr of_int e)) * 2 powr of_int e)"

definition fadd :: "real \<Rightarrow> real \<Rightarrow> real" where
  "fadd x y = fl (x + y)"

definition fmul :: "real \<Rightarrow> real \<Rightarrow> real" where
  "fmul x y = fl (x * y)"

definition fdiv :: "real \<Rightarrow> real \<Rightarrow> real" where
  "fdiv x y = fl (x / y)"

definition fsqrt :: "real \<Rightarrow> real" where
  "fsqrt x = fl (sqrt x)"

definition dotProduct_f64 :: "real list \<Rightarrow> real list \<Rightarrow> real" where
  "dotProduct_f64 aVec bVec =
     foldl (\<lambda>sum (i, val). fadd sum (fmul val (bVec ! i))) 0 (enumerate 0 aVec)"

definition magnitude_f64 :: "real list \<Rightarrow> real" where
  "magnitude_f64 aVec = fsqrt (foldl (\<lambda>sum val. fadd sum (fmul val val)) 0 aVec)"

definition calculateSimilarity_f64 :: "SentimentScores \<Rightarrow> SentimentScores \<Rightarrow> real" where
  "calculateSimilarity_f64 a b =
     (let aVec = vec a;
          bVec = vec b;
          dotProduct = dotProduct_f64 aVec bVec;
          magnitudeA = magnitude_f64 aVec;
          magnitudeB = magnitude_f64 bVec
      in if magnitudeA = 0 \<or> magnitudeB = 0 then 0
         else fdiv dotProduct (fmul magnitudeA magnitudeB))"

subsection \<open>Double precision with the exponent range, the infinities and \<^verbatim>\<open>NaN\<close>\<close>

text \<open>
  A double is a finite number, an infinity or \<^verbatim>\<open>NaN\<close>. The finite doubles of
  magnitude below \<open>2 powr -1022\<close> are the multiples of \<open>2 powr -1074\<close>, and a result that
  rounds to \<open>2 powr 1024\<close> or more overflows to an infinity. \<open>round64 x\<close> is the double
  that an operation returns whose exact result is \<open>x\<close>. The sign of a zero is not kept:
  \<^verbatim>\<open>===\<close> does not see it, and it would only show in a division by zero, where the
  divisor of \<^verbatim>\<open>calculateSimilarity\<close> is a product of two square roots and so never a
  negative zero.
\<close>

datatype double = Fin real | PInf | NInf | NaN

definition minSubnormal :: real where
  "minSubnormal = 2 powr - 1074"

definition minNormal :: real where
  "minNormal = 2 powr - 1022"

definition overflowThreshold :: real where
  "overflowThreshold = 2 powr 1024"

definition round64 :: "real \<Rightarrow> double" where
  "round64 x =
     (if \<bar>x\<bar> < minNormal
      then Fin (of_int (round_ties_even (x / minSubnormal)) * minSubnormal)
      else if overflowThreshold \<le> \<bar>fl x\<bar> then (if 0 < x then PInf else NInf)
      else Fin (fl x))"


text \<open>
  Addition, multiplication, division and square root on all doubles, as IEEE-754 defines
  them on the infinities and \<^verbatim>\<open>NaN\<close>.
\<close>

fun dadd :: "double \<Rightarrow> double \<Rightarrow> double" where
  "dadd (Fin x) (Fin y) = round64 (x + y)"
| "dadd NaN v = NaN"
| "dadd v NaN = NaN"
| "dadd PInf NInf = NaN"
| "dadd NInf PInf = NaN"
| "dadd PInf v = PInf"
| "dadd v PInf = PInf"
| "dadd NInf v = NInf"
| "dadd v NInf = NInf"

fun dmul :: "double \<Rightarrow> double \<Rightarrow> double" where
  "dmul (Fin x) (Fin y) = round64 (x * y)"
| "dmul NaN v = NaN"
| "dmul v NaN = NaN"
| "dmul (Fin x) PInf = (if x = 0 then NaN else if 0 < x then PInf else NInf)"
| "dmul (Fin x) NInf = (if x = 0 then NaN else if 0 < x then NInf else PInf)"
| "dmul PInf (Fin y) = (if y = 0 then NaN else if 0 < y then PInf else NInf)"
| "dmul NInf (Fin y) = (if y = 0 then NaN else if 0 < y then NInf else PInf)"
| "dmul PInf PInf = PInf"
| "dmul PInf NInf = NInf"
| "dmul NInf PInf = NInf"
| "dmul NInf NInf = PInf"

fun ddiv :: "double \<Rightarrow> double \<Rightarrow> double" where
  "ddiv (Fin x) (Fin y) =
     (if y = 0 then (if x = 0 then NaN else if 0 < x then PInf else NInf)
      else round64 (x / y))"
| "ddiv NaN v = NaN"
| "ddiv v NaN = NaN"
| "ddiv (Fin x) v = Fin 0"
| "ddiv PInf (Fin y) = (if 0 \<le> y then PInf else NInf)"
| "ddiv NInf (Fin y) = (if 0 \<le> y then NInf else PInf)"
| "ddiv v w = NaN"

fun dsqrt :: "double \<Rightarrow> double" where
  "dsqrt (Fin x) = (if x < 0 then NaN else round64 (sqrt x))"
| "dsqrt PInf = PInf"
| "dsqrt v = NaN"

text \<open>\<^verbatim>\<open>===\<close> on numbers: \<^verbatim>\<open>NaN\<close> is equal to nothing.\<close>

definition strictEq :: "double \<Rightarrow> double \<Rightarrow> bool" where
  "strictEq x y \<longleftrightarrow> x \<noteq> NaN \<and> y \<noteq> NaN \<and> x = y"

text \<open>\<^verbatim>\<open>interface SentimentScores\<close> with fields that hold any double.\<close>

record SentimentScores_ieee =
  moody_ieee :: double
  scientific_ieee :: double
  optimistic_ieee :: double
  philosophical_ieee :: double
  adventurous_ieee :: double

definition vec_ieee :: "SentimentScores_ieee \<Rightarrow> double list" where
  "vec_ieee a =
     [moody_ieee a, scientific_ieee a, optimistic_ieee a, philosophical_ieee a,
      adventurous_ieee a]"

definition dotProduct_ieee :: "double list \<Rightarrow> double list \<Rightarrow> double" where
  "dotProduct_ieee aVec bVec =
     foldl (\<lambda>sum (i, val). dadd sum (dmul val (bVec ! i))) (Fin 0) (enumerate 0 aVec)"

definition magnitude_ieee :: "double list \<Rightarrow> double" where
  "magnitude_ieee aVec = dsqrt (foldl (\<lambda>sum val. dadd sum (dmul val val)) (Fin 0) aVec)"

definition calculateSimilarity_ieee ::
  "SentimentScores_ieee \<Rightarrow> SentimentScores_ieee \<Rightarrow> double" where
  "calculateSimilarity_ieee a b =
     (let aVec = vec_ieee a;
          bVec = vec_ieee b;
          dotProduct = dotProduct_ieee aVec bVec;
          magnitudeA = magnitude_ieee aVec;
          magnitudeB = magnitude_ieee bVec
      in if strictEq magnitudeA (Fin 0) \<or> strictEq magnitudeB (Fin 0) then Fin 0
         else ddiv dotProduct (dmul magnitudeA magnitudeB))"

section \<open>\<^verbatim>\<open>calculateGenreSimilarity\<close>\<close>

record GenreSimilarity =
  weight :: real
  reason_g :: string

text \<open>
  The nested object literal \<^verbatim>\<open>similarities\<close>, as association lists in the order of the
  source. A lookup \<^verbatim>\<open>similarities[genreA]?.[genreB]\<close> is a lookup among the listed
  keys; the property names that every object inherits, such as \<^verbatim>\<open>constructor\<close>, are no
  genre names and are not modelled.
\<close>

definition similarities :: "(string \<times> (string \<times> GenreSimilarity) list) list" where
  "similarities =
   [(''Sci-Fi'',
      [(''Non-Fiction'', \<lparr>weight = 0.7, reason_g = ''Scientific exploration and intellectual curiosity''\<rparr>),
       (''Literary Fiction'', \<lparr>weight = 0.6, reason_g = ''Dystopian themes and social commentary''\<rparr>),
       (''Fantasy'', \<lparr>weight = 0.5, reason_g = ''World-building and speculative elements''\<rparr>),
       (''Mystery'', \<lparr>weight = 0.4, reason_g = ''Problem-solving and discovery''\<rparr>),
       (''Philosophy'', \<lparr>weight = 0.75, reason_g = ''Existential questions and human nature''\<rparr>)]),
    (''Non-Fiction'',
      [(''Philosophy'', \<lparr>weight = 0.85, reason_g = ''Pursuit of knowledge and understanding''\<rparr>),
       (''Literary Fiction'', \<lparr>weight = 0.5, reason_g = ''Human condition and historical context''\<rparr>),
       (''Mystery'', \<lparr>weight = 0.45, reason_g = ''Investigation and analysis''\<rparr>),
       (''Fantasy'', \<lparr>weight = 0.3, reason_g = ''Cultural mythology and archetypes''\<rparr>)]),
    (''Literary Fiction'',
      [(''Philosophy'', \<lparr>weight = 0.8, reason_g = ''Deep character study and moral questions''\<rparr>),
       (''Mystery'', \<lparr>weight = 0.55, reason_g = ''Psychological exploration''\<rparr>),
       (''Fantasy'', \<lparr>weight = 0.45, reason_g = ''Narrative storytelling traditions''\<rparr>)]),
    (''Fantasy'',
      [(''Mystery'', \<lparr>weight = 0.5, reason_g = ''Quest narratives and hidden truths''\<rparr>),
       (''Philosophy'', \<lparr>weight = 0.55, reason_g = ''Mythological wisdom and hero journeys''\<rparr>)]),
    (''Mystery'',
      [(''Philosophy'', \<lparr>weight = 0.5, reason_g = ''Search for truth and meaning''\<rparr>)])]"

text \<open>\<^verbatim>\<open>similarities[genreA]?.[genreB]\<close>: \<open>None\<close> is \<^verbatim>\<open>undefined\<close>.\<close>

definition lookup2 :: "string \<Rightarrow> string \<Rightarrow> GenreSimilarity option" where
  "lookup2 genreA genreB =
     (case map_of similarities genreA of
        None \<Rightarrow> None
      | Some row \<Rightarrow> map_of row genreB)"

definition calculateGenreSimilarity :: "string \<Rightarrow> string \<Rightarrow> GenreSimilarity" where
  "calculateGenreSimilarity genreA genreB =
     (if genreA = genreB then \<lparr>weight = 1, reason_g = ''Same genre''\<rparr>
      else
        let lookup = (case lookup2 genreA genreB of
                        Some e \<Rightarrow> Some e
                      | None \<Rightarrow> lookup2 genreB genreA)
        in case lookup of
             Some e \<Rightarrow> e
           | None \<Rightarrow> \<lparr>weight = 0.3, reason_g = ''Shared literary heritage''\<rparr>)"

section \<open>\<^verbatim>\<open>Array.prototype.sort\<close> with a comparator\<close>

text \<open>
  \<^verbatim>\<open>xs.sort(cmp)\<close> is a stable sort: \<open>x\<close> is placed before \<open>y\<close> when
  \<open>cmp x y < 0\<close>, and elements that compare equal keep the order of the input. For a
  comparator that is a difference of keys this fixes the result, which is here computed
  by insertion from the right.
\<close>

fun insert_cmp :: "('a \<Rightarrow> 'a \<Rightarrow> real) \<Rightarrow> 'a \<Rightarrow> 'a list \<Rightarrow> 'a list" where
  "insert_cmp cmp x [] = [x]"
| "insert_cmp cmp x (y # ys) =
     (if cmp x y \<le> 0 then x # y # ys else y # insert_cmp cmp x ys)"

definition sort_js :: "('a \<Rightarrow> 'a \<Rightarrow> real) \<Rightarrow> 'a list \<Rightarrow> 'a list" where
  "sort_js cmp xs = foldr (insert_cmp cmp) xs []"

section \<open>\<^verbatim>\<open>generateConnectionReason\<close>\<close>

record Dimension =
  name :: string
  diff :: real
  avg :: real

definition dimensions :: "SentimentScores \<Rightarrow> SentimentScores \<Rightarrow> Dimension list" where
  "dimensions a b =
     [\<lparr>name = ''moody atmosphere'', diff = \<bar>moody a - moody b\<bar>, avg = (moody a + moody b) / 2\<rparr>,
      \<lparr>name = ''scientific rigor'', diff = \<bar>scientific a - scientific b\<bar>,
         avg = (scientific a + scientific b) / 2\<rparr>,
      \<lparr>name = ''optimistic outlook'', diff = \<bar>optimistic a - optimistic b\<bar>,
         avg = (optimistic a + optimistic b) / 2\<rparr>,
      \<lparr>name = ''philosophical depth'', diff = \<bar>philosophical a - philosophical b\<bar>,
         avg = (philosophical a + philosophical b) / 2\<rparr>,
      \<lparr>name = ''adventurous spirit'', diff = \<bar>adventurous a - adventurous b\<bar>,
         avg = (adventurous a + adventurous b) / 2\<rparr>]"

text \<open>\<^verbatim>\<open>dimensions.sort((x, y) => (x.diff - y.diff) + (y.avg - x.avg) * 0.5)\<close>\<close>

definition sortedDimensions :: "SentimentScores \<Rightarrow> SentimentScores \<Rightarrow> Dimension list" where
  "sortedDimensions a b =
     sort_js (\<lambda>x y. (diff x - diff y) + (avg y - avg x) * 0.5) (dimensions a b)"

text \<open>\<^verbatim>\<open>dimensions.slice(0, 2)\<close>\<close>

definition topMatches :: "SentimentScores \<Rightarrow> SentimentScores \<Rightarrow> Dimension list" where
  "topMatches a b = take 2 (sortedDimensions a b)"

text \<open>The array \<^verbatim>\<open>reasons\<close> after the two conditional \<^verbatim>\<open>push\<close> calls.\<close>

definition reasons :: "SentimentScores \<Rightarrow> SentimentScores \<Rightarrow> string list" where
  "reasons a b =
     (let topMatches = topMatches a b;
          reasons0 = [];
          reasons1 = (if avg (topMatches ! 0) > 0.5
                      then reasons0 @ [''Both share strong '' @ name (topMatches ! 0)]
                      else reasons0);
          reasons2 = (if avg (topMatches ! 1) > 0.5
                      then reasons1 @ [''similar '' @ name (topMatches ! 1)]
                      else reasons1)
      in reasons2)"

text \<open>\<^verbatim>\<open>Math.round\<close>: the nearest integer, a tie going up.\<close>

definition Math_round :: "real \<Rightarrow> int" where
  "Math_round x = \<lfloor>x + 1 / 2\<rfloor>"

text \<open>The decimal digits of an integer, as a template literal prints it.\<close>

fun digits :: "nat \<Rightarrow> string" where
  "digits n = (if n < 10 then [''0123456789'' ! n]
               else digits (n div 10) @ [''0123456789'' ! (n mod 10)])"

declare digits.simps [simp del]

definition numberToString :: "int \<Rightarrow> string" where
  "numberToString k = (if k < 0 then ''-'' @ digits (nat (- k)) else digits (nat k))"

text \<open>\<^verbatim>\<open>Array.prototype.join\<close>\<close>

fun join :: "string \<Rightarrow> string list \<Rightarrow> string" where
  "join sep [] = []"
| "join sep [x] = x"
| "join sep (x # y # ys) = x @ sep @ join sep (y # ys)"

definition generateConnectionReason :: "BookNode \<Rightarrow> BookNode \<Rightarrow> real \<Rightarrow> string" where
  "generateConnectionReason bookA bookB similarity =
     (let a = sentimentScores bookA;
          b = sentimentScores bookB;
          reasons = reasons a b
      in if length reasons = 0
         then ''These works share a '' @ numberToString (Math_round (similarity * 100))
              @ ''% thematic similarity based on their emotional and intellectual profiles.''
         else join '' and '' reasons @ ''. Overall ''
              @ numberToString (Math_round (similarity * 100)) @ ''% thematic match.'')"

subsection \<open>The explanation in double precision\<close>

text \<open>
  Every subtraction, addition, division and multiplication rounds; \<^verbatim>\<open>Math.abs\<close>,
  \<^verbatim>\<open>Math.round\<close> and the comparisons are exact.
\<close>

definition fsub :: "real \<Rightarrow> real \<Rightarrow> real" where
  "fsub x y = fl (x - y)"

definition dimensions_f64 :: "SentimentScores \<Rightarrow> SentimentScores \<Rightarrow> Dimension list" where
  "dimensions_f64 a b =
     [\<lparr>name = ''moody atmosphere'', diff = \<bar>fsub (moody a) (moody b)\<bar>,
         avg = fdiv (fadd (moody a) (moody b)) 2\<rparr>,
      \<lparr>name = ''scientific rigor'', diff = \<bar>fsub (scientific a) (scientific b)\<bar>,
         avg = fdiv (fadd (scientific a) (scientific b)) 2\<rparr>,
      \<lparr>name = ''optimistic outlook'', diff = \<bar>fsub (optimistic a) (optimistic b)\<bar>,
         avg = fdiv (fadd (optimistic a) (optimistic b)) 2\<rparr>,
      \<lparr>name = ''philosophical depth'', diff = \<bar>fsub (philosophical a) (philosophical b)\<bar>,
         avg = fdiv (fadd (philosophical a) (philosophical b)) 2\<rparr>,
      \<lparr>name = ''adventurous spirit'', diff = \<bar>fsub (adventurous a) (adventurous b)\<bar>,
         avg = fdiv (fadd (adventurous a) (adventurous b)) 2\<rparr>]"

text \<open>The comparator, \<^verbatim>\<open>(x, y) => (x.diff - y.diff) + (y.avg - x.avg) * 0.5\<close>.\<close>

definition compareDimensions_f64 :: "Dimension \<Rightarrow> Dimension \<Rightarrow> real" where
  "compareDimensions_f64 x y = fadd (fsub (diff x) (diff y)) (fmul (fsub (avg y) (avg x)) 0.5)"

definition sortedDimensions_f64 :: "SentimentScores \<Rightarrow> SentimentScores \<Rightarrow> Dimension list" where
  "sortedDimensions_f64 a b = sort_js compareDimensions_f64 (dimensions_f64 a b)"

definition topMatches_f64 :: "SentimentScores \<Rightarrow> SentimentScores \<Rightarrow> Dimension list" where
  "topMatches_f64 a b = take 2 (sortedDimensions_f64 a b)"

definition reasons_f64 :: "SentimentScores \<Rightarrow> SentimentScores \<Rightarrow> string list" where
  "reasons_f64 a b =
     (let topMatches = topMatches_f64 a b;
          reasons0 = [];
          reasons1 = (if avg (topMatches ! 0) > 0.5
                      then reasons0 @ [''Both share strong '' @ name (topMatches ! 0)]
                      else reasons0);
          reasons2 = (if avg (topMatches ! 1) > 0.5
                      then reasons1 @ [''similar '' @ name (topMatches ! 1)]
                      else reasons1)
      in reasons2)"

definition generateConnectionReason_f64 :: "BookNode \<Rightarrow> BookNode \<Rightarrow> real \<Rightarrow> string" where
  "generateConnectionReason_f64 bookA bookB similarity =
     (let a = sentimentScores bookA;
          b = sentimentScores bookB;
          reasons = reasons_f64 a b
      in if length reasons = 0
         then ''These works share a '' @ numberToString (Math_round (fmul similarity 100))
              @ ''% thematic similarity based on their emotional and intellectual profiles.''
         else join '' and '' reasons @ ''. Overall ''
              @ numberToString (Math_round (fmul similarity 100)) @ ''% thematic match.'')"

section \<open>\<^verbatim>\<open>bookGraphData\<close>\<close>

record Pair =
  pair_i :: nat
  pair_j :: nat
  pair_sim :: real

record Graph =
  nodes :: "BookNode list"
  links :: "GraphLink list"

text \<open>
  The array \<^verbatim>\<open>nodes\<close> is a shallow copy of \<^verbatim>\<open>genreBooks\<close>, so the functions below
  read \<open>genreBooks\<close> where the source reads \<^verbatim>\<open>nodes\<close>. The similarities are the exact
  ones; the proofs about the graph use of them only that those of valid vectors exceed
  \<open>-1\<close>.

  The two nested loops that fill \<^verbatim>\<open>allPairs\<close>.
\<close>

definition allPairs :: "BookNode list \<Rightarrow> Pair list" where
  "allPairs genreBooks =
     concat (map (\<lambda>i. map (\<lambda>j.
         \<lparr>pair_i = i, pair_j = j,
          pair_sim = calculateSimilarity (sentimentScores (genreBooks ! i))
                                         (sentimentScores (genreBooks ! j))\<rparr>)
       [i + 1 ..< length genreBooks]) [0 ..< length genreBooks])"

text \<open>\<^verbatim>\<open>allPairs.sort((a, b) => b.sim - a.sim)\<close>\<close>

definition sortedPairs :: "BookNode list \<Rightarrow> Pair list" where
  "sortedPairs genreBooks = sort_js (\<lambda>a b. pair_sim b - pair_sim a) (allPairs genreBooks)"

definition maxConnectionsPerNode :: nat where
  "maxConnectionsPerNode = 3"

definition targetTotalConnections :: "BookNode list \<Rightarrow> nat" where
  "targetTotalConnections genreBooks = nat \<lfloor>real (length genreBooks) * 1.5\<rfloor>"

text \<open>\<^verbatim>\<open>nodeConnectionCount.get(k) || 0\<close>\<close>

definition getCount :: "(nat \<rightharpoonup> nat) \<Rightarrow> nat \<Rightarrow> nat" where
  "getCount nodeConnectionCount k = (case nodeConnectionCount k of None \<Rightarrow> 0 | Some c \<Rightarrow> c)"

text \<open>
  The first pass, \<^verbatim>\<open>for (const pair of allPairs)\<close>, over the state
  \<open>(nodeConnectionCount, selectedPairs)\<close>; the \<^verbatim>\<open>break\<close> ends the recursion.
\<close>

fun selectLoop ::
  "nat \<Rightarrow> Pair list \<Rightarrow> (nat \<rightharpoonup> nat) \<times> Pair list \<Rightarrow> (nat \<rightharpoonup> nat) \<times> Pair list" where
  "selectLoop targetTotal [] st = st"
| "selectLoop targetTotal (pair # rest) (nodeConnectionCount, selectedPairs) =
     (let countI = getCount nodeConnectionCount (pair_i pair);
          countJ = getCount nodeConnectionCount (pair_j pair)
      in if countI < maxConnectionsPerNode \<and> countJ < maxConnectionsPerNode
         then let selectedPairs' = selectedPairs @ [pair];
                  nodeConnectionCount' =
                    (nodeConnectionCount(pair_i pair \<mapsto> countI + 1))(pair_j pair \<mapsto> countJ + 1)
              in if length selectedPairs' \<ge> targetTotal
                 then (nodeConnectionCount', selectedPairs')
                 else selectLoop targetTotal rest (nodeConnectionCount', selectedPairs')
         else selectLoop targetTotal rest (nodeConnectionCount, selectedPairs))"

definition selectedPairs :: "BookNode list \<Rightarrow> Pair list" where
  "selectedPairs genreBooks =
     snd (selectLoop (targetTotalConnections genreBooks) (sortedPairs genreBooks) (Map.empty, []))"

text \<open>
  \<^verbatim>\<open>selectedPairs.sort(...)\<close>, \<^verbatim>\<open>Math.max(1, Math.ceil(selectedPairs.length * 0.7))\<close> and
  \<^verbatim>\<open>selectedPairs.slice(0, edgesToKeep)\<close>.
\<close>

definition edgesToKeep :: "BookNode list \<Rightarrow> nat" where
  "edgesToKeep genreBooks = max 1 (nat \<lceil>real (length (selectedPairs genreBooks)) * 0.7\<rceil>)"

definition prunedPairs :: "BookNode list \<Rightarrow> Pair list" where
  "prunedPairs genreBooks =
     take (edgesToKeep genreBooks)
       (sort_js (\<lambda>a b. pair_sim b - pair_sim a) (selectedPairs genreBooks))"

definition pairLink :: "BookNode list \<Rightarrow> Pair \<Rightarrow> GraphLink" where
  "pairLink genreBooks pair =
     \<lparr>source = id_node (genreBooks ! pair_i pair),
      target = id_node (genreBooks ! pair_j pair),
      similarityWeight = pair_sim pair,
      reason = generateConnectionReason (genreBooks ! pair_i pair) (genreBooks ! pair_j pair)
                 (pair_sim pair)\<rparr>"

text \<open>The array \<^verbatim>\<open>links\<close> after the loop over \<^verbatim>\<open>prunedPairs\<close>.\<close>

definition prunedLinks :: "BookNode list \<Rightarrow> GraphLink list" where
  "prunedLinks genreBooks = map (pairLink genreBooks) (prunedPairs genreBooks)"

subsection \<open>Union-find over the array \<^verbatim>\<open>parent\<close>\<close>

text \<open>
  \<^verbatim>\<open>find\<close> rewrites \<^verbatim>\<open>parent\<close> on its way back (path compression), so it returns the
  root together with the new array. It follows parent pointers until it meets a root;
  \<open>None\<close> is the call that never returns. Every call below passes an index inside the
  array, and the array holds indices inside itself.
\<close>

partial_function (option) find_uf :: "nat list \<Rightarrow> nat \<Rightarrow> (nat \<times> nat list) option" where
  "find_uf parent x =
     (if parent ! x \<noteq> x
      then Option.bind (find_uf parent (parent ! x)) (\<lambda>(r, parent'). Some (r, parent'[x := r]))
      else Some (x, parent))"

definition union_uf :: "nat list \<Rightarrow> nat \<Rightarrow> nat \<Rightarrow> nat list option" where
  "union_uf parent x y =
     do { (px, parent1) \<leftarrow> find_uf parent x;
          (py, parent2) \<leftarrow> find_uf parent1 y;
          Some (if px \<noteq> py then parent2[px := py] else parent2) }"

text \<open>\<^verbatim>\<open>new Map(nodes.map((n, i) => [n.id, i]))\<close>: a later entry replaces an earlier one.\<close>

definition nodeIdToIndex :: "BookNode list \<Rightarrow> (string \<rightharpoonup> nat)" where
  "nodeIdToIndex genreBooks =
     foldl (\<lambda>m (k, v). m(k \<mapsto> v)) Map.empty
       (zip (map id_node genreBooks) [0 ..< length genreBooks])"

text \<open>\<^verbatim>\<open>for (const link of links)\<close>: the unions of the links already there.\<close>

fun unionLinks :: "(string \<rightharpoonup> nat) \<Rightarrow> GraphLink list \<Rightarrow> nat list \<Rightarrow> nat list option" where
  "unionLinks idx [] parent = Some parent"
| "unionLinks idx (link # rest) parent =
     (case (idx (source link), idx (target link)) of
        (Some sourceIdx, Some targetIdx) \<Rightarrow>
          Option.bind (union_uf parent sourceIdx targetIdx) (unionLinks idx rest)
      | _ \<Rightarrow> unionLinks idx rest parent)"

text \<open>
  \<^verbatim>\<open>highlightedBookId ? nodeIdToIndex.get(highlightedBookId) ?? 0 : 0\<close>. \<open>None\<close> is
  \<^verbatim>\<open>null\<close>; the empty string is falsy as well.
\<close>

definition searchedIdx :: "BookNode list \<Rightarrow> string option \<Rightarrow> nat" where
  "searchedIdx genreBooks highlightedBookId =
     (case highlightedBookId of
        None \<Rightarrow> 0
      | Some h \<Rightarrow> if h = [] then 0
                  else (case nodeIdToIndex genreBooks h of None \<Rightarrow> 0 | Some i \<Rightarrow> i))"

text \<open>\<^verbatim>\<open>Set.prototype.add\<close> on a set kept in insertion order.\<close>

definition set_add :: "nat list \<Rightarrow> nat \<Rightarrow> nat list" where
  "set_add s x = (if x \<in> set s then s else s @ [x])"

text \<open>The loop that fills \<^verbatim>\<open>disconnectedComponents\<close>.\<close>

fun collectComponents ::
  "nat \<Rightarrow> nat list \<Rightarrow> nat list \<Rightarrow> nat list \<Rightarrow> (nat list \<times> nat list) option" where
  "collectComponents searchedComponent [] parent disconnectedComponents =
     Some (disconnectedComponents, parent)"
| "collectComponents searchedComponent (i # rest) parent disconnectedComponents =
     Option.bind (find_uf parent i) (\<lambda>(componentRoot, parent').
       collectComponents searchedComponent rest parent'
         (if componentRoot \<noteq> searchedComponent
          then set_add disconnectedComponents componentRoot
          else disconnectedComponents))"

text \<open>\<^verbatim>\<open>nodes.map((_, idx) => idx).filter(idx => find(idx) === componentRoot)\<close>\<close>

fun nodesInComponent :: "nat \<Rightarrow> nat list \<Rightarrow> nat list \<Rightarrow> (nat list \<times> nat list) option" where
  "nodesInComponent componentRoot [] parent = Some ([], parent)"
| "nodesInComponent componentRoot (idx # rest) parent =
     Option.bind (find_uf parent idx) (\<lambda>(r, parent').
       Option.bind (nodesInComponent componentRoot rest parent') (\<lambda>(found, parent'').
         Some (if r = componentRoot then idx # found else found, parent'')))"

text \<open>
  The search for \<^verbatim>\<open>bestNodeIdx\<close>; its start value \<^verbatim>\<open>-1\<close> is \<open>None\<close>, and
  \<^verbatim>\<open>bestSimilarity\<close> starts at \<open>-1\<close>.
\<close>

definition bestNode :: "BookNode list \<Rightarrow> nat \<Rightarrow> nat list \<Rightarrow> nat option \<times> real" where
  "bestNode genreBooks searched inComponent =
     foldl (\<lambda>(bestNodeIdx, bestSimilarity) nodeIdx.
              let sim = calculateSimilarity (sentimentScores (genreBooks ! nodeIdx))
                                            (sentimentScores (genreBooks ! searched))
              in if sim > bestSimilarity then (Some nodeIdx, sim)
                 else (bestNodeIdx, bestSimilarity))
       (None, - 1) inComponent"

definition repairLink :: "BookNode list \<Rightarrow> nat \<Rightarrow> nat \<Rightarrow> real \<Rightarrow> GraphLink" where
  "repairLink genreBooks bestNodeIdx searched bestSimilarity =
     \<lparr>source = id_node (genreBooks ! bestNodeIdx),
      target = id_node (genreBooks ! searched),
      similarityWeight = bestSimilarity,
      reason = generateConnectionReason (genreBooks ! bestNodeIdx) (genreBooks ! searched)
                 bestSimilarity\<rparr>"

text \<open>\<^verbatim>\<open>for (const componentRoot of disconnectedComponents)\<close>, over the state \<open>(parent, links)\<close>.\<close>

fun repairLoop ::
  "BookNode list \<Rightarrow> nat \<Rightarrow> nat list \<Rightarrow> nat list \<times> GraphLink list
     \<Rightarrow> (nat list \<times> GraphLink list) option" where
  "repairLoop genreBooks searched [] st = Some st"
| "repairLoop genreBooks searched (componentRoot # rest) (parent, linksSoFar) =
     Option.bind (nodesInComponent componentRoot [0 ..< length genreBooks] parent)
       (\<lambda>(inComponent, parent1).
          case bestNode genreBooks searched inComponent of
            (None, bestSimilarity) \<Rightarrow> repairLoop genreBooks searched rest (parent1, linksSoFar)
          | (Some bestNodeIdx, bestSimilarity) \<Rightarrow>
              Option.bind (union_uf parent1 bestNodeIdx searched) (\<lambda>parent2.
                repairLoop genreBooks searched rest
                  (parent2,
                   linksSoFar @ [repairLink genreBooks bestNodeIdx searched bestSimilarity])))"

text \<open>The state \<open>(parent, links)\<close> when the repair loop ends.\<close>

definition repaired ::
  "BookNode list \<Rightarrow> string option \<Rightarrow> (nat list \<times> GraphLink list) option" where
  "repaired genreBooks highlightedBookId =
     do { parent0 \<leftarrow> unionLinks (nodeIdToIndex genreBooks) (prunedLinks genreBooks)
                       [0 ..< length genreBooks];
          (searchedComponent, parent1) \<leftarrow>
             find_uf parent0 (searchedIdx genreBooks highlightedBookId);
          (disconnectedComponents, parent2) \<leftarrow>
             collectComponents searchedComponent [0 ..< length genreBooks] parent1 [];
          repairLoop genreBooks (searchedIdx genreBooks highlightedBookId)
            disconnectedComponents (parent2, prunedLinks genreBooks) }"

definition bookGraphData :: "BookNode list \<Rightarrow> string option \<Rightarrow> Graph option" where
  "bookGraphData genreBooks highlightedBookId =
     (if length genreBooks = 0 then Some \<lparr>nodes = [], links = []\<rparr>
      else do { (parent, allLinks) \<leftarrow> repaired genreBooks highlightedBookId;
                Some \<lparr>nodes = genreBooks, links = allLinks\<rparr> })"

section \<open>Notions used in the statements and proofs\<close>

subsection \<open>Roots of the union-find forest\<close>

text \<open>
  \<open>root_of parent x r\<close>: following the parent pointers from \<open>x\<close> inside the array
  reaches the root \<open>r\<close>.
\<close>

inductive root_of :: "nat list \<Rightarrow> nat \<Rightarrow> nat \<Rightarrow> bool" for parent :: "nat list" where
  root_self: "x < length parent \<Longrightarrow> parent ! x = x \<Longrightarrow> root_of parent x x"
| root_step: "x < length parent \<Longrightarrow> parent ! x \<noteq> x \<Longrightarrow> root_of parent (parent ! x) r
              \<Longrightarrow> root_of parent x r"

text \<open>The array is a forest: every index has a root.\<close>

definition uf_inv :: "nat list \<Rightarrow> bool" where
  "uf_inv parent \<longleftrightarrow> (\<forall>x. x < length parent \<longrightarrow> (\<exists>r. root_of parent x r))"

definition rep :: "nat list \<Rightarrow> nat \<Rightarrow> nat" where
  "rep parent x = (THE r. root_of parent x r)"

subsection \<open>Degrees and connectivity\<close>

text \<open>The number of pairs of \<open>ps\<close> that touch the node with index \<open>v\<close>.\<close>

definition degree :: "Pair list \<Rightarrow> nat \<Rightarrow> nat" where
  "degree ps v = length (filter (\<lambda>p. pair_i p = v \<or> pair_j p = v) ps)"

text \<open>The similarity of node \<open>x\<close> to the searched node \<open>s\<close>, as the repair loop computes it.\<close>

definition simTo :: "BookNode list \<Rightarrow> nat \<Rightarrow> nat \<Rightarrow> real" where
  "simTo bs s x = calculateSimilarity (sentimentScores (bs ! x)) (sentimentScores (bs ! s))"

text \<open>
  The data model of the specification: identifiers are unique, and each of the five
  components of a sentiment vector lies in the interval from 0 to 1.
\<close>

definition validScores :: "SentimentScores \<Rightarrow> bool" where
  "validScores v \<longleftrightarrow>
     0 \<le> moody v \<and> moody v \<le> 1 \<and> 0 \<le> scientific v \<and> scientific v \<le> 1
     \<and> 0 \<le> optimistic v \<and> optimistic v \<le> 1 \<and> 0 \<le> philosophical v \<and> philosophical v \<le> 1
     \<and> 0 \<le> adventurous v \<and> adventurous v \<le> 1"

definition validEntities :: "BookNode list \<Rightarrow> bool" where
  "validEntities bs \<longleftrightarrow>
     distinct (map id_node bs) \<and> list_all (\<lambda>b. validScores (sentimentScores b)) bs"

text \<open>
  The undirected graph that a list of links describes on identifiers: its edges, the
  pairs of identifiers joined by a path, and the connected components of the nodes.
\<close>

definition linkEdges :: "GraphLink list \<Rightarrow> (string \<times> string) set" where
  "linkEdges ls = (\<lambda>l. (source l, target l)) ` set ls"

definition reachable :: "GraphLink list \<Rightarrow> (string \<times> string) set" where
  "reachable ls = (linkEdges ls \<union> (linkEdges ls)\<inverse>)\<^sup>*"

definition components :: "BookNode list \<Rightarrow> GraphLink list \<Rightarrow> string set set" where
  "components bs ls =
     (id_node ` set bs) // (reachable ls \<inter> (id_node ` set bs) \<times> (id_node ` set bs))"

text \<open>The links that the repair loop appended, and the links that touch a node.\<close>

definition repairLinks :: "BookNode list \<Rightarrow> Graph \<Rightarrow> GraphLink list" where
  "repairLinks bs g = drop (length (prunedLinks bs)) (links g)"

definition touching :: "string \<Rightarrow> GraphLink list \<Rightarrow> GraphLink list" where
  "touching v ls = filter (\<lambda>l. source l = v \<or> target l = v) ls"

text \<open>The combined score by which the specification ranks a dimension.\<close>

definition combinedScore :: "Dimension \<Rightarrow> real" where
  "combinedScore d = diff d - 0.5 * avg d"

subsection \<open>Example inputs\<close>

definition scores :: "real \<Rightarrow> real \<Rightarrow> real \<Rightarrow> real \<Rightarrow> real \<Rightarrow> SentimentScores" where
  "scores mo sc opt ph ad =
     \<lparr>moody = mo, scientific = sc, optimistic = opt, philosophical = ph, adventurous = ad\<rparr>"

definition book :: "string \<Rightarrow> SentimentScores \<Rightarrow> BookNode" where
  "book i v = \<lparr>id_node = i, title = [], author = [], genre = [], year = 0, coverUrl = None,
               description = None, sentimentScores = v\<rparr>"

text \<open>Two books; the first has a component outside the interval from 0 to 1.\<close>

definition outOfRangeBooks :: "BookNode list" where
  "outOfRangeBooks = [book ''a'' (scores 2 0 0 0 0), book ''b'' (scores 1 0 0 0 0)]"

text \<open>Two books with valid vectors.\<close>

definition twoBooks :: "BookNode list" where
  "twoBooks = [book ''a'' (scores 1 0 0 0 0), book ''b'' (scores 0 1 0 0 0)]"

text \<open>Seven books in three groups of equal vectors: four, two and one.\<close>

definition clusterBooks :: "BookNode list" where
  "clusterBooks =
     [book ''a1'' (scores 1 0 0 0 0), book ''a2'' (scores 1 0 0 0 0),
      book ''a3'' (scores 1 0 0 0 0), book ''a4'' (scores 1 0 0 0 0),
      book ''b1'' (scores 0 1 0 0 0), book ''b2'' (scores 0 1 0 0 0),
      book ''c1'' (scores 0 0 1 0 0)]"

text \<open>Five books; the last has a negative component.\<close>

definition negativeBooks :: "BookNode list" where
  "negativeBooks =
     [book ''a'' (scores 1 0 0 0 0), book ''b'' (scores 1 0 0 0 0),
      book ''c'' (scores 1 0 0 0 0), book ''d'' (scores 1 0 0 0 0),
      book ''e'' (scores (- 1) 0 0 0 0)]"

subsection \<open>Ranges of doubles\<close>

text \<open>The square root of the smallest positive double.\<close>

definition sqrtMinSubnormal :: real where
  "sqrtMinSubnormal = 2 powr - 537"

text \<open>
  \<open>zeroOrAtLeast c v\<close>: the double \<open>v\<close> is zero, a finite number that is at least \<open>c\<close>,
  the positive infinity or \<^verbatim>\<open>NaN\<close>. \<open>finiteUpTo c v\<close>: it is finite and lies between 0
  and \<open>c\<close>.
\<close>

definition zeroOrAtLeast :: "real \<Rightarrow> double \<Rightarrow> bool" where
  "zeroOrAtLeast c v =
     (case v of Fin r \<Rightarrow> r = 0 \<or> c \<le> r | PInf \<Rightarrow> True | NInf \<Rightarrow> False | NaN \<Rightarrow> True)"

definition finiteUpTo :: "real \<Rightarrow> double \<Rightarrow> bool" where
  "finiteUpTo c v = (case v of Fin r \<Rightarrow> 0 \<le> r \<and> r \<le> c | _ \<Rightarrow> False)"

definition zeroOrNaN :: "double \<Rightarrow> bool" where
  "zeroOrNaN v \<longleftrightarrow> v = Fin 0 \<or> v = NaN"

text \<open>The five components are finite and lie between 0 and 1.\<close>

definition validScores_ieee :: "SentimentScores_ieee \<Rightarrow> bool" where
  "validScores_ieee a \<longleftrightarrow> list_all (finiteUpTo 1) (vec_ieee a)"

text \<open>
  A vector that is not zero and whose squares underflow, and a vector whose squares
  overflow.
\<close>

definition tiny :: real where
  "tiny = 2 powr - 600"

definition huge :: real where
  "huge = 2 powr 600"

definition tinyScores :: SentimentScores where
  "tinyScores = scores tiny 0 0 0 0"

definition hugeScores :: SentimentScores where
  "hugeScores = scores huge 0 0 0 0"

text \<open>A vector of finite components, as a vector of doubles.\<close>

definition ieee :: "SentimentScores \<Rightarrow> SentimentScores_ieee" where
  "ieee a =
     \<lparr>moody_ieee = Fin (moody a), scientific_ieee = Fin (scientific a),
      optimistic_ieee = Fin (optimistic a), philosophical_ieee = Fin (philosophical a),
      adventurous_ieee = Fin (adventurous a)\<rparr>"

text \<open>
  Two vectors of doubles; the third component of the first is the double nearest to 0.2.
  The combined scores of their scientific and optimistic dimensions differ by
  \<open>2 powr -56\<close>.
\<close>

definition roundingScoresA :: SentimentScores where
  "roundingScoresA = scores 1 (3 / 4) (3602879701896397 / 2 ^ 54) 0 1"

definition roundingScoresB :: SentimentScores where
  "roundingScoresB = scores 1 (1 / 2) (1 / 4) 1 0"

text \<open>
  Two vectors whose components are 0, 1 and \<open>2 powr -60\<close>. In the optimistic dimension
  the difference \<open>1 - 2 powr -60\<close> is rounded to 1 and the average to 0.5.
\<close>

definition gapScoresA :: SentimentScores where
  "gapScoresA = scores 1 1 1 0 1"

definition gapScoresB :: SentimentScores where
  "gapScoresB = scores 1 0 (1 / 2 ^ 60) 1 0"

text \<open>A vector of components with few binary digits, compared with itself.\<close>

definition dyadicScores :: SentimentScores where
  "dyadicScores = scores 0 (1 / 4) 1 0 (1 / 2)"

text \<open>Vectors for which the ranking changes the order of the dimensions.\<close>

definition rankedScoresA :: SentimentScores where
  "rankedScoresA = scores (1 / 5) 1 0 1 (3 / 5)"

definition rankedScoresB :: SentimentScores where
  "rankedScoresB = scores (9 / 10) 1 0 (4 / 5) (3 / 5)"

text \<open>A vector with one average that is 0.5 and four that are 0.\<close>

definition halfScores :: SentimentScores where
  "halfScores = scores (1 / 2) 0 0 0 0"

section \<open>Verification\<close>

lemma dotProduct_vec:
  "dotProduct (vec a) (vec b) =
     moody a * moody b + scientific a * scientific b + optimistic a * optimistic b
     + philosophical a * philosophical b + adventurous a * adventurous b"
  by (simp add: dotProduct_def vec_def enumerate_eq_zip upt_rec)

lemma magnitude_vec:
  "magnitude (vec a) =
     sqrt (moody a * moody a + scientific a * scientific a + optimistic a * optimistic a
     + philosophical a * philosophical a + adventurous a * adventurous a)"
  by (simp add: magnitude_def vec_def)

lemma magnitude_nonneg: "0 \<le> magnitude (vec a)"
  by (simp add: magnitude_vec)

lemma dotProduct_self: "dotProduct (vec a) (vec a) = magnitude (vec a) * magnitude (vec a)"
  by (simp add: dotProduct_vec magnitude_vec)

lemma dotProduct_commute: "dotProduct (vec a) (vec b) = dotProduct (vec b) (vec a)"
  by (simp add: dotProduct_vec mult.commute)

lemma cauchy5:
  fixes a1 a2 a3 a4 a5 b1 b2 b3 b4 b5 :: real
  shows "(a1*b1 + a2*b2 + a3*b3 + a4*b4 + a5*b5)\<^sup>2
       \<le> (a1*a1 + a2*a2 + a3*a3 + a4*a4 + a5*a5) * (b1*b1 + b2*b2 + b3*b3 + b4*b4 + b5*b5)"
proof -
  have "(a1*a1 + a2*a2 + a3*a3 + a4*a4 + a5*a5) * (b1*b1 + b2*b2 + b3*b3 + b4*b4 + b5*b5)
        - (a1*b1 + a2*b2 + a3*b3 + a4*b4 + a5*b5)\<^sup>2
      = (a1*b2 - a2*b1)\<^sup>2 + (a1*b3 - a3*b1)\<^sup>2 + (a1*b4 - a4*b1)\<^sup>2 + (a1*b5 - a5*b1)\<^sup>2
      + (a2*b3 - a3*b2)\<^sup>2 + (a2*b4 - a4*b2)\<^sup>2 + (a2*b5 - a5*b2)\<^sup>2
      + (a3*b4 - a4*b3)\<^sup>2 + (a3*b5 - a5*b3)\<^sup>2 + (a4*b5 - a5*b4)\<^sup>2"
    by (simp add: power2_eq_square algebra_simps)
  moreover have "0 \<le> (a1*b2 - a2*b1)\<^sup>2 + (a1*b3 - a3*b1)\<^sup>2 + (a1*b4 - a4*b1)\<^sup>2 + (a1*b5 - a5*b1)\<^sup>2
      + (a2*b3 - a3*b2)\<^sup>2 + (a2*b4 - a4*b2)\<^sup>2 + (a2*b5 - a5*b2)\<^sup>2
      + (a3*b4 - a4*b3)\<^sup>2 + (a3*b5 - a5*b3)\<^sup>2 + (a4*b5 - a5*b4)\<^sup>2"
    by simp
  ultimately show ?thesis by linarith
qed

lemma dotProduct_bound:
  "\<bar>dotProduct (vec a) (vec b)\<bar> \<le> magnitude (vec a) * magnitude (vec b)"
proof -
  have "(dotProduct (vec a) (vec b))\<^sup>2 \<le> (magnitude (vec a) * magnitude (vec b))\<^sup>2"
    unfolding dotProduct_vec magnitude_vec
    by (simp add: power_mult_distrib cauchy5 add_nonneg_nonneg)
  moreover have "0 \<le> magnitude (vec a) * magnitude (vec b)"
    by (simp add: magnitude_nonneg)
  ultimately show ?thesis
    using abs_le_square_iff[of "dotProduct (vec a) (vec b)" "magnitude (vec a) * magnitude (vec b)"]
    by simp
qed


lemma magnitude_zero_iff:
  "magnitude (vec a) = 0 \<longleftrightarrow>
     moody a = 0 \<and> scientific a = 0 \<and> optimistic a = 0 \<and> philosophical a = 0 \<and> adventurous a = 0"
  unfolding magnitude_vec by (simp add: add_nonneg_eq_0_iff)

lemma calculateSimilarity_nonneg:
  assumes "0 \<le> moody a" "0 \<le> scientific a" "0 \<le> optimistic a" "0 \<le> philosophical a"
    "0 \<le> adventurous a"
    and "0 \<le> moody b" "0 \<le> scientific b" "0 \<le> optimistic b" "0 \<le> philosophical b"
    "0 \<le> adventurous b"
  shows "0 \<le> calculateSimilarity a b"
proof -
  have "0 \<le> dotProduct (vec a) (vec b)"
    unfolding dotProduct_vec using assms by simp
  moreover have "0 \<le> magnitude (vec a) * magnitude (vec b)"
    by (simp add: magnitude_nonneg)
  ultimately show ?thesis
    by (simp add: calculateSimilarity_def Let_def)
qed

subsection \<open>Rounding to double precision\<close>

lemma round_ties_even_eq:
  assumes "of_int m - 1 / 2 < y" "y < of_int m + 1 / 2"
  shows "round_ties_even y = m"
proof (cases "of_int m \<le> y")
  case True
  then have "\<lfloor>y\<rfloor> = m" using assms(2) by (intro floor_unique) auto
  then show ?thesis using assms(2) by (simp add: round_ties_even_def Let_def)
next
  case False
  then have "\<lfloor>y\<rfloor> = m - 1" using assms(1) by (intro floor_unique) auto
  then show ?thesis using assms(1) False by (simp add: round_ties_even_def Let_def)
qed

lemma floor_log2:
  assumes "2 ^ 52 \<le> y" "y < 2 ^ 53"
  shows "\<lfloor>log 2 (y::real)\<rfloor> = 52"
proof -
  have y: "0 < y" using assms(1) by (smt (verit) zero_less_power)
  have "(2::real) powr 52 \<le> y" "y < 2 powr 53" using assms by simp_all
  then have "52 \<le> log 2 y" "log 2 y < 53"
    using y by (simp_all add: le_log_iff log_less_iff)
  then show ?thesis by (intro floor_unique) auto
qed

lemma fl_eval:
  assumes "2 ^ 52 \<le> x * 2 ^ k" "x * 2 ^ k < 2 ^ 53"
    "of_int m - 1 / 2 < x * 2 ^ k" "x * 2 ^ k < of_int m + 1 / 2"
  shows "fl x = of_int m / 2 ^ k"
proof -
  define y where "y = x * 2 ^ k"
  have y: "0 < y" using assms(1) unfolding y_def by (smt (verit) zero_less_power)
  then have x: "0 < x" unfolding y_def by (simp add: zero_less_mult_iff)
  have xy: "x = y / 2 ^ k" unfolding y_def by simp
  have "log 2 x = log 2 y - of_int (int k)"
    unfolding xy using y by (simp add: log_divide log_nat_power)
  then have "\<lfloor>log 2 x\<rfloor> = \<lfloor>log 2 y\<rfloor> - int k"
    by (simp only: floor_diff_of_int)
  then have "\<lfloor>log 2 \<bar>x\<bar>\<rfloor> = 52 - int k"
    using floor_log2[of y] assms(1,2) x unfolding y_def[symmetric] by simp
  then have e: "\<lfloor>log 2 \<bar>x\<bar>\<rfloor> - 52 = - int k" by simp
  have p: "2 powr of_int (- int k) = 1 / (2::real) ^ k"
    by (simp add: powr_minus powr_realpow inverse_eq_divide)
  have "\<bar>x\<bar> / (1 / 2 ^ k) = y" using x by (simp add: y_def)
  moreover have "round_ties_even y = m"
    using assms(3,4) unfolding y_def by (rule round_ties_even_eq)
  ultimately show ?thesis
    unfolding fl_def Let_def e p using x by simp
qed

lemma fl_small: "fl 0 = 0" "fl 1 = 1" "fl 2 = 2" "fl 3 = 3"
proof -
  show "fl 0 = 0" by (simp add: fl_def)
  show "fl 1 = 1" using fl_eval[of 1 52 "2 ^ 52"] by simp
  show "fl 2 = 2" using fl_eval[of 2 51 "2 ^ 52"] by simp
  show "fl 3 = 3" using fl_eval[of 3 51 "3 * 2 ^ 51"] by simp
qed

lemma fl_sqrt_eval:
  assumes "0 \<le> c" "0 < m" "(2 ^ 52)\<^sup>2 \<le> c * 4 ^ k" "c * 4 ^ k < (2 ^ 53)\<^sup>2"
    "(of_int m - 1 / 2)\<^sup>2 < c * 4 ^ k" "c * 4 ^ k < (of_int m + 1 / 2)\<^sup>2"
  shows "fl (sqrt c) = of_int m / 2 ^ k"
proof -
  have s: "sqrt c * 2 ^ k = sqrt (c * 4 ^ k)"
  proof -
    have "(4::real) ^ k = (2 ^ k)\<^sup>2"
      by (simp add: power2_eq_square flip: power_mult_distrib)
    then show ?thesis by (simp add: real_sqrt_mult)
  qed
  have "1 \<le> m" using assms(2) by simp
  then have "(1::real) \<le> of_int m" by (simp only: of_int_1_le_iff)
  then have m: "0 \<le> (of_int m :: real) - 1 / 2" by linarith
  show ?thesis
  proof (rule fl_eval; unfold s)
    show "2 ^ 52 \<le> sqrt (c * 4 ^ k)" using assms(3) by (auto intro!: real_le_rsqrt)
    show "sqrt (c * 4 ^ k) < 2 ^ 53" using assms(4) by (auto intro!: real_less_lsqrt)
    show "of_int m - 1 / 2 < sqrt (c * 4 ^ k)" using assms(5) by (auto intro!: real_less_rsqrt)
    show "sqrt (c * 4 ^ k) < of_int m + 1 / 2"
      using assms(6) m by (auto intro!: real_less_lsqrt)
  qed
qed

lemma dotProduct_f64_vec:
  "dotProduct_f64 (vec a) (vec b) =
     fadd (fadd (fadd (fadd (fadd 0 (fmul (moody a) (moody b)))
                            (fmul (scientific a) (scientific b)))
                      (fmul (optimistic a) (optimistic b)))
                (fmul (philosophical a) (philosophical b)))
          (fmul (adventurous a) (adventurous b))"
  by (simp add: dotProduct_f64_def vec_def enumerate_eq_zip upt_rec)

lemma magnitude_f64_vec:
  "magnitude_f64 (vec a) =
     fsqrt (fadd (fadd (fadd (fadd (fadd 0 (fmul (moody a) (moody a)))
                                   (fmul (scientific a) (scientific a)))
                             (fmul (optimistic a) (optimistic a)))
                       (fmul (philosophical a) (philosophical a)))
                 (fmul (adventurous a) (adventurous a)))"
  by (simp add: magnitude_f64_def vec_def)

lemma fmul_commute: "fmul x y = fmul y x"
  by (simp add: fmul_def mult.commute)

lemma calculateSimilarity_f64_commute:
  "calculateSimilarity_f64 a b = calculateSimilarity_f64 b a"
proof -
  have "dotProduct_f64 (vec a) (vec b) = dotProduct_f64 (vec b) (vec a)"
    unfolding dotProduct_f64_vec
    by (simp only: fmul_commute[of "moody a"] fmul_commute[of "scientific a"]
        fmul_commute[of "optimistic a"] fmul_commute[of "philosophical a"]
        fmul_commute[of "adventurous a"])
  moreover have "fmul (magnitude_f64 (vec a)) (magnitude_f64 (vec b))
      = fmul (magnitude_f64 (vec b)) (magnitude_f64 (vec a))"
    by (rule fmul_commute)
  ultimately show ?thesis
    by (auto simp: calculateSimilarity_f64_def Let_def)
qed

lemma f64_small:
  "fmul 0 0 = 0" "fmul 1 1 = 1" "fadd 0 0 = 0" "fadd 0 1 = 1" "fadd 1 0 = 1" "fadd 1 1 = 2"
  "fadd 2 0 = 2" "fadd 2 1 = 3" "fadd 3 0 = 3"
  by (simp_all add: fmul_def fadd_def fl_small)

lemma f64_two:
  "fsqrt 2 = 6369051672525773 / 2 ^ 52"
  "fmul (6369051672525773 / 2 ^ 52) (6369051672525773 / 2 ^ 52) = 4503599627370497 / 2 ^ 51"
  "fdiv 2 (4503599627370497 / 2 ^ 51) = 4503599627370495 / 2 ^ 52"
proof -
  show "fsqrt 2 = 6369051672525773 / 2 ^ 52"
    unfolding fsqrt_def
    using fl_sqrt_eval[of 2 6369051672525773 52] by (simp add: power2_eq_square)
  show "fmul (6369051672525773 / 2 ^ 52) (6369051672525773 / 2 ^ 52)
        = 4503599627370497 / 2 ^ 51"
    unfolding fmul_def
    using fl_eval[of "6369051672525773 / 2 ^ 52 * (6369051672525773 / 2 ^ 52)" 51
        4503599627370497]
    by simp
  show "fdiv 2 (4503599627370497 / 2 ^ 51) = 4503599627370495 / 2 ^ 52"
    unfolding fdiv_def
    using fl_eval[of "2 / (4503599627370497 / 2 ^ 51)" 53 9007199254740990]
    by simp
qed

lemma f64_three:
  "fsqrt 3 = 7800463371553962 / 2 ^ 52"
  "fmul (7800463371553962 / 2 ^ 52) (7800463371553962 / 2 ^ 52) = 6755399441055743 / 2 ^ 51"
  "fdiv 3 (6755399441055743 / 2 ^ 51) = 4503599627370497 / 2 ^ 52"
proof -
  show "fsqrt 3 = 7800463371553962 / 2 ^ 52"
    unfolding fsqrt_def
    using fl_sqrt_eval[of 3 7800463371553962 52] by (simp add: power2_eq_square)
  show "fmul (7800463371553962 / 2 ^ 52) (7800463371553962 / 2 ^ 52)
        = 6755399441055743 / 2 ^ 51"
    unfolding fmul_def
    using fl_eval[of "7800463371553962 / 2 ^ 52 * (7800463371553962 / 2 ^ 52)" 51
        6755399441055743]
    by simp
  show "fdiv 3 (6755399441055743 / 2 ^ 51) = 4503599627370497 / 2 ^ 52"
    unfolding fdiv_def
    using fl_eval[of "3 / (6755399441055743 / 2 ^ 51)" 52 4503599627370497]
    by simp
qed

lemma calculateSimilarity_f64_nonzero:
  "magnitude_f64 (vec a) \<noteq> 0 \<Longrightarrow>
     calculateSimilarity_f64 a a
       = fdiv (dotProduct_f64 (vec a) (vec a))
              (fmul (magnitude_f64 (vec a)) (magnitude_f64 (vec a)))"
  by (simp add: calculateSimilarity_f64_def Let_def)

lemma calculateSimilarity_f64_two:
  "magnitude_f64 (vec (scores 1 1 0 0 0)) = 6369051672525773 / 2 ^ 52"
  "calculateSimilarity_f64 (scores 1 1 0 0 0) (scores 1 1 0 0 0)
     = 4503599627370495 / 2 ^ 52"
proof -
  let ?a = "scores 1 1 0 0 0"
  have d: "dotProduct_f64 (vec ?a) (vec ?a) = 2"
    by (simp add: dotProduct_f64_vec scores_def f64_small)
  show m: "magnitude_f64 (vec ?a) = 6369051672525773 / 2 ^ 52"
    by (simp add: magnitude_f64_vec scores_def f64_small f64_two(1))
  then have "magnitude_f64 (vec ?a) \<noteq> 0" by simp
  then have "calculateSimilarity_f64 ?a ?a
       = fdiv (dotProduct_f64 (vec ?a) (vec ?a))
              (fmul (magnitude_f64 (vec ?a)) (magnitude_f64 (vec ?a)))"
    by (rule calculateSimilarity_f64_nonzero)
  also have "\<dots> = fdiv 2 (fmul (6369051672525773 / 2 ^ 52) (6369051672525773 / 2 ^ 52))"
    by (simp only: d m)
  also have "\<dots> = fdiv 2 (4503599627370497 / 2 ^ 51)"
    by (simp only: f64_two(2))
  also have "\<dots> = 4503599627370495 / 2 ^ 52"
    by (rule f64_two(3))
  finally show "calculateSimilarity_f64 ?a ?a = 4503599627370495 / 2 ^ 52" .
qed

lemma calculateSimilarity_f64_three:
  "calculateSimilarity_f64 (scores 1 1 1 0 0) (scores 1 1 1 0 0)
     = 4503599627370497 / 2 ^ 52"
proof -
  let ?a = "scores 1 1 1 0 0"
  have d: "dotProduct_f64 (vec ?a) (vec ?a) = 3"
    by (simp add: dotProduct_f64_vec scores_def f64_small)
  have m: "magnitude_f64 (vec ?a) = 7800463371553962 / 2 ^ 52"
    by (simp add: magnitude_f64_vec scores_def f64_small f64_three(1))
  then have "magnitude_f64 (vec ?a) \<noteq> 0" by simp
  then have "calculateSimilarity_f64 ?a ?a
       = fdiv (dotProduct_f64 (vec ?a) (vec ?a))
              (fmul (magnitude_f64 (vec ?a)) (magnitude_f64 (vec ?a)))"
    by (rule calculateSimilarity_f64_nonzero)
  also have "\<dots> = fdiv 3 (fmul (7800463371553962 / 2 ^ 52) (7800463371553962 / 2 ^ 52))"
    by (simp only: d m)
  also have "\<dots> = fdiv 3 (6755399441055743 / 2 ^ 51)"
    by (simp only: f64_three(2))
  also have "\<dots> = 4503599627370497 / 2 ^ 52"
    by (rule f64_three(3))
  finally show ?thesis .
qed

lemma scores_fields:
  "moody (scores mo sc opt ph ad) = mo" "scientific (scores mo sc opt ph ad) = sc"
  "optimistic (scores mo sc opt ph ad) = opt" "philosophical (scores mo sc opt ph ad) = ph"
  "adventurous (scores mo sc opt ph ad) = ad"
  by (simp_all add: scores_def)

lemma round_ties_even_tie:
  "round_ties_even (of_int m + 1 / 2) = (if even m then m else m + 1)"
proof -
  have "\<lfloor>(of_int m :: real) + 1 / 2\<rfloor> = m" by (intro floor_unique) auto
  then show ?thesis by (simp add: round_ties_even_def Let_def)
qed

lemma fl_eval_rounded:
  assumes "2 ^ 52 \<le> x * 2 ^ k" "x * 2 ^ k < 2 ^ 53" "round_ties_even (x * 2 ^ k) = m"
  shows "fl x = of_int m / 2 ^ k"
proof -
  define y where "y = x * 2 ^ k"
  have y: "0 < y" using assms(1) unfolding y_def by (smt (verit) zero_less_power)
  then have x: "0 < x" unfolding y_def by (simp add: zero_less_mult_iff)
  have xy: "x = y / 2 ^ k" unfolding y_def by simp
  have "log 2 x = log 2 y - of_int (int k)"
    unfolding xy using y by (simp add: log_divide log_nat_power)
  then have "\<lfloor>log 2 x\<rfloor> = \<lfloor>log 2 y\<rfloor> - int k"
    by (simp only: floor_diff_of_int)
  then have "\<lfloor>log 2 \<bar>x\<bar>\<rfloor> = 52 - int k"
    using floor_log2[of y] assms(1,2) x unfolding y_def[symmetric] by simp
  then have e: "\<lfloor>log 2 \<bar>x\<bar>\<rfloor> - 52 = - int k" by simp
  have p: "2 powr of_int (- int k) = 1 / (2::real) ^ k"
    by (simp add: powr_minus powr_realpow inverse_eq_divide)
  have "\<bar>x\<bar> / (1 / 2 ^ k) = y" using x by (simp add: y_def)
  moreover have "round_ties_even y = m"
    using assms(3) unfolding y_def .
  ultimately show ?thesis
    unfolding fl_def Let_def e p using x by simp
qed

lemma fl_eval_tie:
  assumes "2 ^ 52 \<le> x * 2 ^ k" "x * 2 ^ k < 2 ^ 53" "x * 2 ^ k = of_int m + 1 / 2"
  shows "fl x = of_int (if even m then m else m + 1) / 2 ^ k"
  using assms(1,2)
proof (rule fl_eval_rounded)
  show "round_ties_even (x * 2 ^ k) = (if even m then m else m + 1)"
    unfolding assms(3) by (rule round_ties_even_tie)
qed

subsection \<open>Bounds on the rounding\<close>

lemma rte_ge:
  assumes "of_int n \<le> y"
  shows "n \<le> round_ties_even y"
proof -
  have "n \<le> \<lfloor>y\<rfloor>" using assms by (simp add: le_floor_iff)
  then show ?thesis by (auto simp: round_ties_even_def Let_def)
qed

lemma rte_le:
  assumes "y \<le> of_int n"
  shows "round_ties_even y \<le> n"
proof (cases "y = of_int n")
  case True
  then show ?thesis by (simp add: round_ties_even_def)
next
  case False
  with assms have "y < of_int n" by simp
  then have "\<lfloor>y\<rfloor> < n" by (simp add: floor_less_iff)
  then show ?thesis by (auto simp: round_ties_even_def Let_def)
qed

lemma rte_int: "round_ties_even (of_int n) = n"
  by (simp add: round_ties_even_def)

lemma log2_floor_bounds:
  assumes "0 < (x::real)"
  shows "2 powr of_int \<lfloor>log 2 x\<rfloor> \<le> x" "x < 2 powr (of_int \<lfloor>log 2 x\<rfloor> + 1)"
proof -
  have "of_int \<lfloor>log 2 x\<rfloor> \<le> log 2 x" by simp
  then show "2 powr of_int \<lfloor>log 2 x\<rfloor> \<le> x"
    using le_log_iff[of 2 x "of_int \<lfloor>log 2 x\<rfloor>", OF _ assms] by fastforce
  have "log 2 x < of_int \<lfloor>log 2 x\<rfloor> + 1" by linarith
  then show "x < 2 powr (of_int \<lfloor>log 2 x\<rfloor> + 1)"
    using assms log_less_iff[of 2 x "of_int \<lfloor>log 2 x\<rfloor> + 1"] by simp
qed

lemma fl_pos_bounds:
  assumes x: "0 < x"
  shows "2 powr of_int \<lfloor>log 2 x\<rfloor> \<le> fl x" "fl x \<le> 2 powr (of_int \<lfloor>log 2 x\<rfloor> + 1)"
proof -
  define L where "L = \<lfloor>log 2 x\<rfloor>"
  define q where "q = (2::real) powr of_int (L - 52)"
  define y where "y = x / q"
  have q: "0 < q" by (simp add: q_def)
  have f: "fl x = of_int (round_ties_even y) * q"
    using x by (simp add: fl_def Let_def L_def q_def y_def)
  have qL: "2 ^ 52 * q = 2 powr of_int L"
  proof -
    have "(2::real) ^ 52 = 2 powr 52" by simp
    then have "2 ^ 52 * q = 2 powr 52 * 2 powr of_int (L - 52)" by (simp only: q_def)
    also have "\<dots> = 2 powr (52 + of_int (L - 52))" by (simp only: powr_add)
    also have "\<dots> = 2 powr of_int L" by simp
    finally show ?thesis .
  qed
  have qL1: "2 ^ 53 * q = 2 powr (of_int L + 1)"
  proof -
    have "(2::real) ^ 53 = 2 powr 53" by simp
    then have "2 ^ 53 * q = 2 powr 53 * 2 powr of_int (L - 52)" by (simp only: q_def)
    also have "\<dots> = 2 powr (53 + of_int (L - 52))" by (simp only: powr_add)
    also have "\<dots> = 2 powr (of_int L + 1)" by (simp add: algebra_simps)
    finally show ?thesis .
  qed
  from log2_floor_bounds[OF x] have b: "2 powr of_int L \<le> x" "x < 2 powr (of_int L + 1)"
    by (simp_all add: L_def)
  have "2 ^ 52 * q \<le> x" using b(1) qL by simp
  then have y1: "2 ^ 52 \<le> y" using q by (simp add: y_def pos_le_divide_eq)
  have "x < 2 ^ 53 * q" using b(2) qL1 by simp
  then have y2: "y < 2 ^ 53" using q by (simp add: y_def pos_divide_less_eq)
  have "of_int (2 ^ 52) \<le> y" using y1 by simp
  then have r1: "2 ^ 52 \<le> round_ties_even y" by (rule rte_ge)
  have "y \<le> of_int (2 ^ 53)" using y2 by simp
  then have r2: "round_ties_even y \<le> 2 ^ 53" by (rule rte_le)
  have "(2::real) ^ 52 \<le> of_int (round_ties_even y)"
    using r1 by (metis of_int_le_iff of_int_numeral of_int_power)
  then have "2 ^ 52 * q \<le> of_int (round_ties_even y) * q"
    using q by (simp add: mult_right_mono)
  then show "2 powr of_int \<lfloor>log 2 x\<rfloor> \<le> fl x"
    unfolding f qL[symmetric] L_def[symmetric] by simp
  have "of_int (round_ties_even y) \<le> (2::real) ^ 53"
    using r2 by (metis of_int_le_iff of_int_numeral of_int_power)
  then have "of_int (round_ties_even y) * q \<le> 2 ^ 53 * q"
    using q by (simp add: mult_right_mono)
  then show "fl x \<le> 2 powr (of_int \<lfloor>log 2 x\<rfloor> + 1)"
    unfolding f L_def[symmetric] qL1[symmetric] by simp
qed


lemma fl_pow2: "fl (2 powr of_int k) = 2 powr of_int k"
proof -
  have l: "\<lfloor>log 2 \<bar>2 powr of_int k\<bar>\<rfloor> = k" by simp
  have "\<bar>(2::real) powr of_int k\<bar> = 2 powr of_int k" by simp
  then have "\<bar>2 powr of_int k\<bar> / 2 powr of_int (k - 52) = (2::real) powr (of_int k - of_int (k - 52))"
    by (simp only: powr_diff)
  also have "\<dots> = 2 powr 52" by simp
  also have "\<dots> = of_int (2 ^ 52)" by simp
  finally have y: "\<bar>(2::real) powr of_int k\<bar> / 2 powr of_int (k - 52) = of_int (2 ^ 52)" .
  have "fl (2 powr of_int k) = of_int (round_ties_even (of_int (2 ^ 52))) * 2 powr of_int (k - 52)"
    unfolding fl_def Let_def l y by simp
  also have "\<dots> = 2 powr 52 * 2 powr of_int (k - 52)"
    unfolding rte_int by simp
  also have "\<dots> = 2 powr (52 + of_int (k - 52))" by (simp only: powr_add)
  also have "\<dots> = 2 powr of_int k" by simp
  finally show ?thesis .
qed

lemma fl_ge_pow2:
  assumes "2 powr of_int k \<le> x"
  shows "2 powr of_int k \<le> fl x"
proof -
  have x: "0 < x" using assms by (smt (verit) powr_gt_zero)
  have "of_int k \<le> log 2 x" using assms x le_log_iff[of 2 x "of_int k"] by simp
  then have "k \<le> \<lfloor>log 2 x\<rfloor>" by (simp add: le_floor_iff)
  then have "(2::real) powr of_int k \<le> 2 powr of_int \<lfloor>log 2 x\<rfloor>" by simp
  with fl_pos_bounds(1)[OF x] show ?thesis by linarith
qed

lemma fl_le_pow2:
  assumes x: "0 < x" and le: "x \<le> 2 powr of_int k"
  shows "fl x \<le> 2 powr of_int k"
proof (cases "x = 2 powr of_int k")
  case True
  then show ?thesis by (simp add: fl_pow2)
next
  case False
  with le have "x < 2 powr of_int k" by simp
  then have "log 2 x < of_int k" using x log_less_iff[of 2 x "of_int k"] by simp
  then have "\<lfloor>log 2 x\<rfloor> < k" by (simp add: floor_less_iff)
  then have "of_int \<lfloor>log 2 x\<rfloor> + 1 \<le> (of_int k :: real)" by linarith
  then have "(2::real) powr (of_int \<lfloor>log 2 x\<rfloor> + 1) \<le> 2 powr of_int k" by simp
  with fl_pos_bounds(2)[OF x] show ?thesis by linarith
qed

lemma fl_pos: "0 < x \<Longrightarrow> 0 < fl x"
  using fl_pos_bounds(1)[of x] by (smt (verit) powr_gt_zero)

lemma fl_zero: "fl 0 = 0"
  by (simp add: fl_def)

lemma fl_minus: "fl (- x) = - fl x"
  by (simp add: fl_def Let_def sgn_minus)

lemma fl_nonneg: "0 \<le> x \<Longrightarrow> 0 \<le> fl x"
  using fl_pos[of x] fl_zero by (cases "x = 0") auto

subsection \<open>The exponent range\<close>

lemma minSubnormal_pos: "0 < minSubnormal"
  by (simp add: minSubnormal_def)

lemma minNormal_eq: "minNormal = 2 ^ 52 * minSubnormal"
proof -
  have "(2::real) ^ 52 * 2 powr - 1074 = 2 powr 52 * 2 powr - 1074" by simp
  also have "\<dots> = 2 powr (52 + - 1074)" by (simp only: powr_add)
  also have "\<dots> = 2 powr - 1022" by simp
  finally show ?thesis by (simp only: minNormal_def minSubnormal_def)
qed

lemma minSubnormal_le_minNormal: "minSubnormal \<le> minNormal"
  using minSubnormal_pos by (simp add: minNormal_eq)

lemma round64_zero: "round64 0 = Fin 0"
  using minSubnormal_pos by (simp add: round64_def minNormal_eq round_ties_even_def)

text \<open>Below the normal range the result is a multiple of the smallest positive double.\<close>

lemma round64_subnormal:
  assumes "0 \<le> x" "x < minNormal"
  shows "\<exists>n. round64 x = Fin (of_int n * minSubnormal) \<and> 0 \<le> n \<and> n \<le> 2 ^ 52
             \<and> (minSubnormal \<le> x \<longrightarrow> 1 \<le> n)"
proof -
  define n where "n = round_ties_even (x / minSubnormal)"
  have r: "round64 x = Fin (of_int n * minSubnormal)"
    using assms by (simp add: round64_def n_def)
  have "of_int 0 \<le> x / minSubnormal" using assms(1) minSubnormal_pos by simp
  then have n0: "0 \<le> n" unfolding n_def by (rule rte_ge)
  have "x / minSubnormal \<le> 2 ^ 52"
    using assms(2) minSubnormal_pos by (simp add: minNormal_eq pos_divide_le_eq)
  then have "x / minSubnormal \<le> of_int (2 ^ 52)" by simp
  then have n1: "n \<le> 2 ^ 52" unfolding n_def by (rule rte_le)
  have n2: "1 \<le> n" if "minSubnormal \<le> x"
  proof -
    have "of_int 1 \<le> x / minSubnormal" using that minSubnormal_pos by (simp add: pos_le_divide_eq)
    then show ?thesis unfolding n_def by (rule rte_ge)
  qed
  from r n0 n1 n2 show ?thesis by blast
qed


lemma minNormal_pos: "0 < minNormal"
  by (simp add: minNormal_def)

lemma minNormal_pow: "minNormal = 2 powr of_int (- 1022)"
  by (simp add: minNormal_def)

lemma overflowThreshold_pow: "overflowThreshold = 2 powr of_int 1024"
  by (simp add: overflowThreshold_def)

lemma fl_abs: "\<bar>fl x\<bar> = fl \<bar>x\<bar>"
proof (cases "0 \<le> x")
  case True
  then show ?thesis using fl_nonneg[of x] by simp
next
  case False
  then have "0 \<le> - x" by simp
  from fl_nonneg[OF this] False show ?thesis by (simp add: fl_minus)
qed

lemma round64_normal:
  assumes "minNormal \<le> \<bar>x\<bar>" "\<bar>fl x\<bar> < overflowThreshold"
  shows "round64 x = Fin (fl x)"
  using assms by (simp add: round64_def)

lemma round64_nonneg:
  assumes "0 \<le> x"
  shows "zeroOrAtLeast minSubnormal (round64 x) \<and> round64 x \<noteq> NaN"
proof (cases "x < minNormal")
  case True
  from round64_subnormal[OF assms True] obtain n where
    n: "round64 x = Fin (of_int n * minSubnormal)" "0 \<le> n" "n \<le> 2 ^ 52" by blast
  show ?thesis
  proof (cases "n = 0")
    case True
    then show ?thesis by (simp add: n(1) zeroOrAtLeast_def)
  next
    case False
    with n(2) have "1 \<le> n" by simp
    then have "(1::real) \<le> of_int n" by simp
    then have "1 * minSubnormal \<le> of_int n * minSubnormal"
      using minSubnormal_pos by (intro mult_right_mono) simp_all
    then show ?thesis by (simp add: n(1) zeroOrAtLeast_def)
  qed
next
  case False
  then have x: "minNormal \<le> x" by simp
  then have xp: "0 < x" using minNormal_pos by linarith
  have "minNormal \<le> fl x" using x unfolding minNormal_pow by (rule fl_ge_pow2)
  then have "minSubnormal \<le> fl x" using minSubnormal_le_minNormal by linarith
  then show ?thesis using False xp assms by (simp add: round64_def zeroOrAtLeast_def)
qed

lemma round64_nonzero:
  assumes "minSubnormal \<le> x"
  shows "round64 x \<noteq> Fin 0"
proof (cases "x < minNormal")
  case True
  have x0: "0 \<le> x" using assms minSubnormal_pos by linarith
  from round64_subnormal[OF x0 True] assms obtain n where
    n: "round64 x = Fin (of_int n * minSubnormal)" "1 \<le> n" by blast
  then have "(1::real) \<le> of_int n" by simp
  then have "0 < of_int n * minSubnormal" using minSubnormal_pos by simp
  then have "of_int n * minSubnormal \<noteq> 0" by linarith
  then show ?thesis unfolding n(1) by (simp only: double.inject simp_thms)
next
  case False
  then have x: "minNormal \<le> x" by simp
  then have xp: "0 < x" using minNormal_pos by linarith
  from fl_pos[OF xp] show ?thesis using False xp by (simp add: round64_def)
qed

lemma round64_ge:
  assumes "2 powr of_int k \<le> x" "minNormal \<le> 2 powr of_int k"
  shows "zeroOrAtLeast (2 powr of_int k) (round64 x) \<and> round64 x \<noteq> Fin 0
         \<and> round64 x \<noteq> NaN"
proof -
  have x: "minNormal \<le> x" using assms by linarith
  then have xp: "0 < x" using minNormal_pos by linarith
  have f: "2 powr of_int k \<le> fl x" using assms(1) by (rule fl_ge_pow2)
  then have "0 < fl x" by (smt (verit) powr_gt_zero)
  with f show ?thesis using x xp by (simp add: round64_def zeroOrAtLeast_def)
qed

lemma round64_le:
  assumes "0 \<le> x" "x \<le> 2 ^ k" "k \<le> 1023"
  shows "finiteUpTo (2 ^ k) (round64 x)"
proof (cases "x < minNormal")
  case True
  from round64_subnormal[OF assms(1) True] obtain n where
    n: "round64 x = Fin (of_int n * minSubnormal)" "0 \<le> n" "n \<le> 2 ^ 52" by blast
  have "(of_int n :: real) \<le> 2 ^ 52"
    using n(3) by (metis of_int_le_iff of_int_numeral of_int_power)
  then have "of_int n * minSubnormal \<le> 2 ^ 52 * minSubnormal"
    using minSubnormal_pos by (intro mult_right_mono) simp_all
  then have a: "of_int n * minSubnormal \<le> minNormal" by (simp add: minNormal_eq)
  have b: "minNormal \<le> 1"
  proof -
    have "(2::real) powr - 1022 \<le> 2 powr 0" by (rule powr_mono) simp_all
    then show ?thesis by (simp add: minNormal_def)
  qed
  have c: "(1::real) \<le> 2 ^ k" by (rule one_le_power) simp
  have "of_int n * minSubnormal \<le> 2 ^ k" using a b c by linarith
  moreover have "0 \<le> of_int n * minSubnormal" using n(2) minSubnormal_pos by simp
  ultimately show ?thesis by (simp add: n(1) finiteUpTo_def)
next
  case False
  then have x: "minNormal \<le> x" by simp
  then have xp: "0 < x" using minNormal_pos by linarith
  have p: "(2::real) ^ k = 2 powr of_int (int k)" by (simp add: powr_realpow)
  have f1: "fl x \<le> 2 ^ k" using xp assms(2) unfolding p by (rule fl_le_pow2)
  have "(2::real) powr of_int (int k) < 2 powr of_int 1024"
    using assms(3) by (intro powr_less_mono) simp_all
  then have f2: "2 ^ k < overflowThreshold" by (simp only: p overflowThreshold_pow)
  have f0: "0 \<le> fl x" using assms(1) by (rule fl_nonneg)
  have "\<bar>fl x\<bar> < overflowThreshold" using f0 f1 f2 by linarith
  moreover have "minNormal \<le> \<bar>x\<bar>" using x xp by linarith
  ultimately have "round64 x = Fin (fl x)" by (rule round64_normal[rotated])
  then show ?thesis using f0 f1 by (simp add: finiteUpTo_def)
qed


subsection \<open>The similarity with the exponent range\<close>

lemma dotProduct_ieee_vec:
  "dotProduct_ieee (vec_ieee a) (vec_ieee b) =
     dadd (dadd (dadd (dadd (dadd (Fin 0) (dmul (moody_ieee a) (moody_ieee b)))
                            (dmul (scientific_ieee a) (scientific_ieee b)))
                      (dmul (optimistic_ieee a) (optimistic_ieee b)))
                (dmul (philosophical_ieee a) (philosophical_ieee b)))
          (dmul (adventurous_ieee a) (adventurous_ieee b))"
  by (simp add: dotProduct_ieee_def vec_ieee_def enumerate_eq_zip upt_rec)

lemma magnitude_ieee_vec:
  "magnitude_ieee (vec_ieee a) =
     dsqrt (dadd (dadd (dadd (dadd (dadd (Fin 0) (dmul (moody_ieee a) (moody_ieee a)))
                                   (dmul (scientific_ieee a) (scientific_ieee a)))
                             (dmul (optimistic_ieee a) (optimistic_ieee a)))
                       (dmul (philosophical_ieee a) (philosophical_ieee a)))
                 (dmul (adventurous_ieee a) (adventurous_ieee a)))"
  by (simp add: magnitude_ieee_def vec_ieee_def)

text \<open>A sum of squares is zero, or at least the smallest positive double.\<close>

lemma square_zeroOrAtLeast: "zeroOrAtLeast minSubnormal (dmul v v)"
proof (cases v)
  case (Fin x)
  have "0 \<le> x * x" by simp
  from round64_nonneg[OF this] show ?thesis by (simp add: Fin)
qed (simp_all add: zeroOrAtLeast_def)

lemma dadd_zeroOrAtLeast:
  assumes "zeroOrAtLeast minSubnormal s" "zeroOrAtLeast minSubnormal t"
  shows "zeroOrAtLeast minSubnormal (dadd s t)"
proof (cases s)
  case s: (Fin x)
  show ?thesis
  proof (cases t)
    case t: (Fin y)
    have "0 \<le> x" "0 \<le> y"
      using assms minSubnormal_pos by (auto simp: s t zeroOrAtLeast_def)
    then have "0 \<le> x + y" by simp
    from round64_nonneg[OF this] show ?thesis by (simp add: s t)
  qed (use assms in \<open>simp_all add: s zeroOrAtLeast_def\<close>)
next
  case PInf
  then show ?thesis using assms by (cases t) (simp_all add: zeroOrAtLeast_def)
next
  case NInf
  then show ?thesis using assms by (simp add: zeroOrAtLeast_def)
next
  case NaN
  then show ?thesis by (simp add: zeroOrAtLeast_def)
qed

lemma sqrt_minSubnormal: "sqrt minSubnormal = sqrtMinSubnormal"
proof -
  have "sqrt minSubnormal = (2 powr - 1074) powr (1 / 2)"
    by (simp add: minSubnormal_def powr_half_sqrt)
  also have "\<dots> = 2 powr (- 1074 * (1 / 2))" by (simp only: powr_powr)
  also have "\<dots> = 2 powr - 537" by simp
  finally show ?thesis by (simp only: sqrtMinSubnormal_def)
qed

lemma sqrtMinSubnormal_pos: "0 < sqrtMinSubnormal"
  by (simp add: sqrtMinSubnormal_def)

lemma sqrtMinSubnormal_square: "sqrtMinSubnormal * sqrtMinSubnormal = minSubnormal"
proof -
  have "sqrtMinSubnormal * sqrtMinSubnormal = 2 powr (- 537 + - 537)"
    by (simp only: sqrtMinSubnormal_def powr_add)
  also have "\<dots> = 2 powr - 1074" by simp
  finally show ?thesis by (simp only: minSubnormal_def)
qed

lemma dsqrt_zeroOrAtLeast:
  assumes "zeroOrAtLeast minSubnormal s"
  shows "zeroOrAtLeast sqrtMinSubnormal (dsqrt s)"
proof (cases s)
  case (Fin x)
  show ?thesis
  proof (cases "x = 0")
    case True
    then show ?thesis by (simp add: Fin round64_zero zeroOrAtLeast_def)
  next
    case False
    then have x: "minSubnormal \<le> x" using assms by (simp add: Fin zeroOrAtLeast_def)
    then have "sqrt minSubnormal \<le> sqrt x" by simp
    then have a: "2 powr of_int (- 537) \<le> sqrt x"
      by (simp add: sqrt_minSubnormal sqrtMinSubnormal_def)
    have "(2::real) powr - 1022 \<le> 2 powr - 537" by (rule powr_mono) simp_all
    then have b: "minNormal \<le> 2 powr of_int (- 537)" by (simp add: minNormal_def)
    from round64_ge[OF a b] have "zeroOrAtLeast sqrtMinSubnormal (round64 (sqrt x))"
      by (simp add: sqrtMinSubnormal_def)
    moreover have "\<not> x < 0" using x minSubnormal_pos by linarith
    ultimately show ?thesis by (simp add: Fin)
  qed
qed (use assms in \<open>simp_all add: zeroOrAtLeast_def\<close>)

lemma magnitude_ieee_zeroOrAtLeast:
  "zeroOrAtLeast sqrtMinSubnormal (magnitude_ieee (vec_ieee a))"
proof -
  have z: "zeroOrAtLeast minSubnormal (Fin 0)" by (simp add: zeroOrAtLeast_def)
  show ?thesis
    unfolding magnitude_ieee_vec
    by (intro dsqrt_zeroOrAtLeast dadd_zeroOrAtLeast square_zeroOrAtLeast z)
qed

text \<open>The product of two magnitudes that are not zero is not zero: it does not underflow.\<close>

lemma dmul_nonzero:
  assumes "zeroOrAtLeast sqrtMinSubnormal m" "zeroOrAtLeast sqrtMinSubnormal n"
    "m \<noteq> Fin 0" "n \<noteq> Fin 0"
  shows "dmul m n \<noteq> Fin 0"
proof (cases m)
  case m: (Fin x)
  then have x: "sqrtMinSubnormal \<le> x" using assms(1,3) by (simp add: zeroOrAtLeast_def)
  show ?thesis
  proof (cases n)
    case n: (Fin y)
    then have y: "sqrtMinSubnormal \<le> y" using assms(2,4) by (simp add: zeroOrAtLeast_def)
    have "sqrtMinSubnormal * sqrtMinSubnormal \<le> x * y"
      using x y sqrtMinSubnormal_pos by (intro mult_mono) simp_all
    then have "minSubnormal \<le> x * y" by (simp only: sqrtMinSubnormal_square)
    from round64_nonzero[OF this] show ?thesis by (simp add: m n)
  next
    case PInf
    then show ?thesis using x sqrtMinSubnormal_pos by (simp add: m)
  next
    case NInf
    then show ?thesis using assms(2) by (simp add: zeroOrAtLeast_def)
  next
    case NaN
    then show ?thesis by (simp add: m)
  qed
next
  case PInf
  then show ?thesis using assms(2,4) sqrtMinSubnormal_pos
    by (cases n) (auto simp: zeroOrAtLeast_def)
next
  case NInf
  then show ?thesis using assms(1) by (simp add: zeroOrAtLeast_def)
next
  case NaN
  then show ?thesis by simp
qed

lemma divisor_nonzero:
  assumes "magnitude_ieee (vec_ieee a) \<noteq> Fin 0" "magnitude_ieee (vec_ieee b) \<noteq> Fin 0"
  shows "dmul (magnitude_ieee (vec_ieee a)) (magnitude_ieee (vec_ieee b)) \<noteq> Fin 0"
  using magnitude_ieee_zeroOrAtLeast[of a] magnitude_ieee_zeroOrAtLeast[of b] assms
  by (rule dmul_nonzero)

lemma strictEq_zero: "strictEq m (Fin 0) \<longleftrightarrow> m = Fin 0"
  by (auto simp: strictEq_def)

lemma calculateSimilarity_ieee_guard:
  "magnitude_ieee (vec_ieee a) = Fin 0 \<or> magnitude_ieee (vec_ieee b) = Fin 0 \<Longrightarrow>
     calculateSimilarity_ieee a b = Fin 0"
  by (auto simp: calculateSimilarity_ieee_def Let_def strictEq_zero)

lemma calculateSimilarity_ieee_quotient:
  "magnitude_ieee (vec_ieee a) \<noteq> Fin 0 \<Longrightarrow> magnitude_ieee (vec_ieee b) \<noteq> Fin 0 \<Longrightarrow>
     calculateSimilarity_ieee a b
       = ddiv (dotProduct_ieee (vec_ieee a) (vec_ieee b))
              (dmul (magnitude_ieee (vec_ieee a)) (magnitude_ieee (vec_ieee b)))"
  by (simp add: calculateSimilarity_ieee_def Let_def strictEq_zero)


text \<open>With a vector of zeros, the quotient that the guard skips is \<^verbatim>\<open>NaN\<close>.\<close>

lemma dmul_zero_left: "zeroOrNaN (dmul (Fin 0) v)"
  by (cases v) (simp_all add: zeroOrNaN_def round64_zero)

lemma dmul_zero_right: "zeroOrNaN (dmul v (Fin 0))"
  by (cases v) (simp_all add: zeroOrNaN_def round64_zero)

lemma dadd_zeroOrNaN: "zeroOrNaN s \<Longrightarrow> zeroOrNaN t \<Longrightarrow> zeroOrNaN (dadd s t)"
  by (auto simp: zeroOrNaN_def round64_zero)

lemma dmul_zeroOrNaN_left: "zeroOrNaN s \<Longrightarrow> zeroOrNaN (dmul s v)"
  using dmul_zero_left[of v] by (auto simp: zeroOrNaN_def)

lemma dmul_zeroOrNaN_right: "zeroOrNaN s \<Longrightarrow> zeroOrNaN (dmul v s)"
  using dmul_zero_right[of v] by (cases v) (auto simp: zeroOrNaN_def)

lemma ddiv_zeroOrNaN: "zeroOrNaN s \<Longrightarrow> zeroOrNaN t \<Longrightarrow> ddiv s t = NaN"
  by (auto simp: zeroOrNaN_def)

lemma zero_fields:
  assumes "vec_ieee a = replicate 5 (Fin 0)"
  shows "moody_ieee a = Fin 0" "scientific_ieee a = Fin 0" "optimistic_ieee a = Fin 0"
    "philosophical_ieee a = Fin 0" "adventurous_ieee a = Fin 0"
  using assms by (simp_all add: vec_ieee_def numeral_eq_Suc)

lemma magnitude_ieee_zero:
  assumes "vec_ieee a = replicate 5 (Fin 0)"
  shows "magnitude_ieee (vec_ieee a) = Fin 0"
  by (simp add: magnitude_ieee_vec zero_fields[OF assms] round64_zero)

lemma dotProduct_ieee_zero:
  assumes "vec_ieee a = replicate 5 (Fin 0) \<or> vec_ieee b = replicate 5 (Fin 0)"
  shows "zeroOrNaN (dotProduct_ieee (vec_ieee a) (vec_ieee b))"
proof -
  have z: "zeroOrNaN (Fin 0)" by (simp add: zeroOrNaN_def)
  from assms show ?thesis
  proof
    assume a: "vec_ieee a = replicate 5 (Fin 0)"
    show ?thesis
      unfolding dotProduct_ieee_vec zero_fields[OF a]
      by (intro dadd_zeroOrNaN dmul_zero_left z)
  next
    assume b: "vec_ieee b = replicate 5 (Fin 0)"
    show ?thesis
      unfolding dotProduct_ieee_vec zero_fields[OF b]
      by (intro dadd_zeroOrNaN dmul_zero_right z)
  qed
qed

lemma unguarded_quotient_NaN:
  assumes "vec_ieee a = replicate 5 (Fin 0) \<or> vec_ieee b = replicate 5 (Fin 0)"
  shows "ddiv (dotProduct_ieee (vec_ieee a) (vec_ieee b))
              (dmul (magnitude_ieee (vec_ieee a)) (magnitude_ieee (vec_ieee b))) = NaN"
proof -
  have "zeroOrNaN (dmul (magnitude_ieee (vec_ieee a)) (magnitude_ieee (vec_ieee b)))"
    using assms
  proof
    assume "vec_ieee a = replicate 5 (Fin 0)"
    from magnitude_ieee_zero[OF this] show ?thesis by (simp only: dmul_zero_left)
  next
    assume "vec_ieee b = replicate 5 (Fin 0)"
    from magnitude_ieee_zero[OF this] show ?thesis by (simp only: dmul_zero_right)
  qed
  with dotProduct_ieee_zero[OF assms] show ?thesis by (rule ddiv_zeroOrNaN)
qed

text \<open>Components between 0 and 1: every intermediate value is finite.\<close>

lemma dmul_upTo:
  assumes "finiteUpTo 1 u" "finiteUpTo 1 v"
  shows "finiteUpTo 1 (dmul u v)"
proof -
  from assms obtain x y where u: "u = Fin x" "0 \<le> x" "x \<le> 1" and v: "v = Fin y" "0 \<le> y" "y \<le> 1"
    by (auto simp: finiteUpTo_def split: double.splits)
  have "0 \<le> x * y" "x * y \<le> 2 ^ 0" using u v by (simp_all add: mult_le_one)
  from round64_le[OF this] show ?thesis by (simp add: u v)
qed

lemma dadd_upTo:
  assumes "finiteUpTo c s" "finiteUpTo d t" "c + d \<le> 2 ^ k" "k \<le> 1023"
  shows "finiteUpTo (2 ^ k) (dadd s t)"
proof -
  from assms obtain x y where s: "s = Fin x" "0 \<le> x" "x \<le> c" and t: "t = Fin y" "0 \<le> y" "y \<le> d"
    by (auto simp: finiteUpTo_def split: double.splits)
  have "0 \<le> x + y" "x + y \<le> 2 ^ k" using s t assms(3) by simp_all
  from round64_le[OF this assms(4)] show ?thesis by (simp add: s t)
qed

lemma valid_fields:
  assumes "validScores_ieee a"
  shows "finiteUpTo 1 (moody_ieee a)" "finiteUpTo 1 (scientific_ieee a)"
    "finiteUpTo 1 (optimistic_ieee a)" "finiteUpTo 1 (philosophical_ieee a)"
    "finiteUpTo 1 (adventurous_ieee a)"
  using assms by (simp_all add: validScores_ieee_def vec_ieee_def)

lemma sum5_upTo:
  assumes "finiteUpTo 1 p1" "finiteUpTo 1 p2" "finiteUpTo 1 p3" "finiteUpTo 1 p4"
    "finiteUpTo 1 p5"
  shows "finiteUpTo 16 (dadd (dadd (dadd (dadd (dadd (Fin 0) p1) p2) p3) p4) p5)"
proof -
  have z: "finiteUpTo 0 (Fin 0)" by (simp add: finiteUpTo_def)
  have s1: "finiteUpTo 1 (dadd (Fin 0) p1)"
    using dadd_upTo[OF z assms(1), of 0] by simp
  have s2: "finiteUpTo 2 (dadd (dadd (Fin 0) p1) p2)"
    using dadd_upTo[OF s1 assms(2), of 1] by simp
  have s3: "finiteUpTo 4 (dadd (dadd (dadd (Fin 0) p1) p2) p3)"
    using dadd_upTo[OF s2 assms(3), of 2] by simp
  have s4: "finiteUpTo 8 (dadd (dadd (dadd (dadd (Fin 0) p1) p2) p3) p4)"
    using dadd_upTo[OF s3 assms(4), of 3] by simp
  show ?thesis
    using dadd_upTo[OF s4 assms(5), of 4] by simp
qed

lemma dotProduct_ieee_upTo:
  assumes "validScores_ieee a" "validScores_ieee b"
  shows "finiteUpTo 16 (dotProduct_ieee (vec_ieee a) (vec_ieee b))"
  unfolding dotProduct_ieee_vec
  by (intro sum5_upTo dmul_upTo valid_fields[OF assms(1)] valid_fields[OF assms(2)])

lemma magnitude_ieee_upTo:
  assumes "validScores_ieee a"
  shows "finiteUpTo 4 (magnitude_ieee (vec_ieee a))"
proof -
  have "finiteUpTo 16 (dadd (dadd (dadd (dadd (dadd (Fin 0) (dmul (moody_ieee a) (moody_ieee a)))
                                   (dmul (scientific_ieee a) (scientific_ieee a)))
                             (dmul (optimistic_ieee a) (optimistic_ieee a)))
                       (dmul (philosophical_ieee a) (philosophical_ieee a)))
                 (dmul (adventurous_ieee a) (adventurous_ieee a)))"
    by (intro sum5_upTo dmul_upTo valid_fields[OF assms])
  then obtain x where x: "dadd (dadd (dadd (dadd (dadd (Fin 0) (dmul (moody_ieee a) (moody_ieee a)))
                                   (dmul (scientific_ieee a) (scientific_ieee a)))
                             (dmul (optimistic_ieee a) (optimistic_ieee a)))
                       (dmul (philosophical_ieee a) (philosophical_ieee a)))
                 (dmul (adventurous_ieee a) (adventurous_ieee a)) = Fin x" "0 \<le> x" "x \<le> 16"
    by (auto simp: finiteUpTo_def split: double.splits)
  have "sqrt x \<le> sqrt 16" using x(3) by (simp only: real_sqrt_le_iff)
  also have "sqrt 16 = 4" using real_sqrt_abs[of 4] by simp
  finally have "sqrt x \<le> 2 ^ 2" by simp
  moreover have "0 \<le> sqrt x" using x(2) by simp
  ultimately have "finiteUpTo (2 ^ 2) (round64 (sqrt x))" by (intro round64_le) simp_all
  then show ?thesis using x(2) by (simp add: magnitude_ieee_vec x(1))
qed

lemma calculateSimilarity_ieee_valid:
  assumes "validScores_ieee a" "validScores_ieee b"
  shows "calculateSimilarity_ieee a b \<noteq> NaN"
proof (cases "magnitude_ieee (vec_ieee a) = Fin 0 \<or> magnitude_ieee (vec_ieee b) = Fin 0")
  case True
  then show ?thesis by (simp add: calculateSimilarity_ieee_guard)
next
  case False
  then have nz: "magnitude_ieee (vec_ieee a) \<noteq> Fin 0" "magnitude_ieee (vec_ieee b) \<noteq> Fin 0"
    by simp_all
  from magnitude_ieee_upTo[OF assms(1)] obtain x where
    x: "magnitude_ieee (vec_ieee a) = Fin x" "0 \<le> x" "x \<le> 4"
    by (auto simp: finiteUpTo_def split: double.splits)
  from magnitude_ieee_upTo[OF assms(2)] obtain y where
    y: "magnitude_ieee (vec_ieee b) = Fin y" "0 \<le> y" "y \<le> 4"
    by (auto simp: finiteUpTo_def split: double.splits)
  from dotProduct_ieee_upTo[OF assms] obtain d where
    d: "dotProduct_ieee (vec_ieee a) (vec_ieee b) = Fin d" "0 \<le> d"
    by (auto simp: finiteUpTo_def split: double.splits)
  have "x * y \<le> 4 * 4" using x y by (intro mult_mono) simp_all
  then have "0 \<le> x * y" "x * y \<le> 2 ^ 4" using x y by simp_all
  then have "finiteUpTo (2 ^ 4) (round64 (x * y))" by (intro round64_le) simp_all
  then obtain p where p: "round64 (x * y) = Fin p" "0 \<le> p"
    by (auto simp: finiteUpTo_def split: double.splits)
  have "dmul (magnitude_ieee (vec_ieee a)) (magnitude_ieee (vec_ieee b)) \<noteq> Fin 0"
    using nz by (rule divisor_nonzero)
  then have p0: "p \<noteq> 0" by (simp add: x(1) y(1) p(1))
  have "0 \<le> d / p" using d(2) p(2) by simp
  from round64_nonneg[OF this] have "round64 (d / p) \<noteq> NaN" by simp
  then show ?thesis
    using p0 by (simp add: calculateSimilarity_ieee_quotient[OF nz] d(1) x(1) y(1) p(1))
qed


subsection \<open>Values of the similarity with the exponent range\<close>

lemma round64_underflow:
  assumes "0 \<le> x" "x < minSubnormal / 2"
  shows "round64 x = Fin 0"
proof -
  have "x < minNormal" using assms(2) minSubnormal_pos minSubnormal_le_minNormal by linarith
  then have r: "round64 x = Fin (of_int (round_ties_even (x / minSubnormal)) * minSubnormal)"
    using assms(1) by (simp add: round64_def)
  have "x / minSubnormal < 1 / 2" using assms(2) minSubnormal_pos by (simp add: pos_divide_less_eq)
  moreover have "0 \<le> x / minSubnormal" using assms(1) minSubnormal_pos by simp
  ultimately have "round_ties_even (x / minSubnormal) = 0"
    by (intro round_ties_even_eq) simp_all
  then show ?thesis by (simp add: r)
qed

lemma round64_overflow:
  assumes "overflowThreshold \<le> x"
  shows "round64 x = PInf"
proof -
  have t: "0 < overflowThreshold" by (simp add: overflowThreshold_def)
  have "(2::real) powr - 1022 \<le> 2 powr 1024" by (rule powr_mono) simp_all
  then have "minNormal \<le> overflowThreshold" by (simp only: minNormal_def overflowThreshold_def)
  then have x: "minNormal \<le> x" "0 < x" using assms t by linarith+
  have "overflowThreshold \<le> fl x" using assms unfolding overflowThreshold_pow by (rule fl_ge_pow2)
  then show ?thesis using x t by (simp add: round64_def)
qed

lemma round64_pow2:
  assumes "- 1022 \<le> k" "k \<le> 1023"
  shows "round64 (2 powr of_int k) = Fin (2 powr of_int k)"
proof -
  have "(2::real) powr of_int (- 1022) \<le> 2 powr of_int k"
    using assms(1) by (intro powr_mono) simp_all
  then have a: "minNormal \<le> \<bar>2 powr of_int k\<bar>" by (simp add: minNormal_def)
  have "(2::real) powr of_int k < 2 powr of_int 1024"
    using assms(2) by (intro powr_less_mono) simp_all
  moreover have "\<bar>(2::real) powr of_int k\<bar> = 2 powr of_int k" by simp
  ultimately have b: "\<bar>fl (2 powr of_int k)\<bar> < overflowThreshold"
    by (simp only: fl_pow2 overflowThreshold_pow)
  from round64_normal[OF a b] show ?thesis by (simp only: fl_pow2)
qed

lemma round64_mid:
  assumes "1 / 2 ^ 10 \<le> \<bar>x\<bar>" "\<bar>x\<bar> \<le> 2 ^ 10"
  shows "round64 x = Fin (fl x)"
proof -
  have "(2::real) powr - 1022 \<le> 2 powr - 10" by (rule powr_mono) simp_all
  also have "(2::real) powr - 10 = 1 / 2 ^ 10" by (simp add: powr_minus_divide)
  finally have a: "minNormal \<le> \<bar>x\<bar>" using assms(1) by (simp only: minNormal_def)
  have xp: "0 < \<bar>x\<bar>" using assms(1) by (smt (verit) divide_pos_pos zero_less_power)
  have "\<bar>x\<bar> \<le> 2 powr of_int 10" using assms(2) by simp
  from fl_le_pow2[OF xp this] have "fl \<bar>x\<bar> \<le> 2 powr of_int 10" .
  moreover have "(2::real) powr of_int 10 < 2 powr of_int 1024" by (intro powr_less_mono) simp_all
  ultimately have "\<bar>fl x\<bar> < overflowThreshold"
    by (simp only: fl_abs overflowThreshold_pow)
  with a show ?thesis by (rule round64_normal)
qed

lemma round64_small: "round64 1 = Fin 1" "round64 2 = Fin 2" "round64 3 = Fin 3"
  by (simp_all add: round64_mid fl_small)


lemma ieee_fields:
  "moody_ieee (ieee a) = Fin (moody a)" "scientific_ieee (ieee a) = Fin (scientific a)"
  "optimistic_ieee (ieee a) = Fin (optimistic a)"
  "philosophical_ieee (ieee a) = Fin (philosophical a)"
  "adventurous_ieee (ieee a) = Fin (adventurous a)"
  by (simp_all add: ieee_def)

lemma vec_ieee_zero: "vec_ieee (ieee (scores 0 0 0 0 0)) = replicate 5 (Fin 0)"
  by (simp add: vec_ieee_def ieee_fields scores_fields numeral_eq_Suc)

lemma tiny_square: "round64 (tiny * tiny) = Fin 0"
proof -
  have e: "tiny * tiny = 2 powr - 1200"
  proof -
    have "tiny * tiny = 2 powr (- 600 + - 600)" by (simp only: tiny_def powr_add)
    then show ?thesis by simp
  qed
  have "(2::real) powr - 1200 < 2 powr - 1075" by (rule powr_less_mono) simp_all
  also have "(2::real) powr - 1075 = 2 powr (- 1074 + - 1)" by simp
  also have "\<dots> = minSubnormal / 2" by (simp only: powr_add minSubnormal_def) simp
  finally have "tiny * tiny < minSubnormal / 2" by (simp only: e)
  moreover have "0 \<le> tiny * tiny" by simp
  ultimately show ?thesis by (intro round64_underflow)
qed

lemma tiny_pos: "0 < tiny"
  by (simp add: tiny_def)

text \<open>A vector that is not zero, with a magnitude that is computed as zero.\<close>

lemma magnitude_ieee_tiny: "magnitude_ieee (vec_ieee (ieee tinyScores)) = Fin 0"
  by (simp add: magnitude_ieee_vec ieee_fields tinyScores_def scores_fields tiny_square
      round64_zero)

lemma huge_square: "round64 (huge * huge) = PInf"
proof -
  have "huge * huge = 2 powr (600 + 600)" by (simp only: huge_def powr_add)
  then have e: "huge * huge = 2 powr 1200" by simp
  have "(2::real) powr 1024 \<le> 2 powr 1200" by (rule powr_mono) simp_all
  then have "overflowThreshold \<le> huge * huge" by (simp only: e overflowThreshold_def)
  then show ?thesis by (rule round64_overflow)
qed

lemma huge_round: "round64 huge = Fin huge"
  using round64_pow2[of 600] by (simp add: huge_def)

lemma huge_pos: "0 < huge"
  by (simp add: huge_def)

text \<open>
  Where the squares overflow the function does return \<^verbatim>\<open>NaN\<close>, or 0 for a pair of
  parallel vectors: \<^verbatim>\<open>NaN\<close> is a value of this model.
\<close>

lemma calculateSimilarity_ieee_overflow:
  "calculateSimilarity_ieee (ieee hugeScores) (ieee hugeScores) = NaN"
  "calculateSimilarity_ieee (ieee hugeScores) (ieee (scores 1 0 0 0 0)) = Fin 0"
proof -
  have m: "magnitude_ieee (vec_ieee (ieee hugeScores)) = PInf"
    by (simp add: magnitude_ieee_vec ieee_fields hugeScores_def scores_fields huge_square
        round64_zero)
  have u: "magnitude_ieee (vec_ieee (ieee (scores 1 0 0 0 0))) = Fin 1"
    by (simp add: magnitude_ieee_vec ieee_fields scores_fields round64_zero round64_small)
  have d1: "dotProduct_ieee (vec_ieee (ieee hugeScores)) (vec_ieee (ieee hugeScores)) = PInf"
    by (simp add: dotProduct_ieee_vec ieee_fields hugeScores_def scores_fields huge_square
        round64_zero)
  have d2: "dotProduct_ieee (vec_ieee (ieee hugeScores)) (vec_ieee (ieee (scores 1 0 0 0 0)))
            = Fin huge"
    by (simp add: dotProduct_ieee_vec ieee_fields hugeScores_def scores_fields huge_round
        round64_zero)
  show "calculateSimilarity_ieee (ieee hugeScores) (ieee hugeScores) = NaN"
    by (simp add: calculateSimilarity_ieee_def Let_def strictEq_zero m d1)
  show "calculateSimilarity_ieee (ieee hugeScores) (ieee (scores 1 0 0 0 0)) = Fin 0"
    by (simp add: calculateSimilarity_ieee_def Let_def strictEq_zero m u d2)
qed

text \<open>
  In the normal range the operations are those of the model without exponent range.
\<close>

lemma mid_ops:
  "x * y = 0 \<or> 1 / 2 ^ 10 \<le> \<bar>x * y\<bar> \<and> \<bar>x * y\<bar> \<le> 2 ^ 10 \<Longrightarrow>
     dmul (Fin x) (Fin y) = Fin (fmul x y)"
  "x + y = 0 \<or> 1 / 2 ^ 10 \<le> \<bar>x + y\<bar> \<and> \<bar>x + y\<bar> \<le> 2 ^ 10 \<Longrightarrow>
     dadd (Fin x) (Fin y) = Fin (fadd x y)"
  "y \<noteq> 0 \<Longrightarrow> x / y = 0 \<or> 1 / 2 ^ 10 \<le> \<bar>x / y\<bar> \<and> \<bar>x / y\<bar> \<le> 2 ^ 10 \<Longrightarrow>
     ddiv (Fin x) (Fin y) = Fin (fdiv x y)"
  "x = 0 \<or> 1 / 4 ^ 10 \<le> x \<and> x \<le> 4 ^ 10 \<Longrightarrow> dsqrt (Fin x) = Fin (fsqrt x)"
proof -
  have r: "round64 z = Fin (fl z)" if "z = 0 \<or> 1 / 2 ^ 10 \<le> \<bar>z\<bar> \<and> \<bar>z\<bar> \<le> 2 ^ 10" for z
    using that round64_mid[of z] by (auto simp: round64_zero fl_zero)
  show "x * y = 0 \<or> 1 / 2 ^ 10 \<le> \<bar>x * y\<bar> \<and> \<bar>x * y\<bar> \<le> 2 ^ 10 \<Longrightarrow>
     dmul (Fin x) (Fin y) = Fin (fmul x y)"
    using r[of "x * y"] by (simp add: fmul_def)
  show "x + y = 0 \<or> 1 / 2 ^ 10 \<le> \<bar>x + y\<bar> \<and> \<bar>x + y\<bar> \<le> 2 ^ 10 \<Longrightarrow>
     dadd (Fin x) (Fin y) = Fin (fadd x y)"
    using r[of "x + y"] by (simp add: fadd_def)
  show "y \<noteq> 0 \<Longrightarrow> x / y = 0 \<or> 1 / 2 ^ 10 \<le> \<bar>x / y\<bar> \<and> \<bar>x / y\<bar> \<le> 2 ^ 10 \<Longrightarrow>
     ddiv (Fin x) (Fin y) = Fin (fdiv x y)"
    using r[of "x / y"] by (simp add: fdiv_def)
  show "dsqrt (Fin x) = Fin (fsqrt x)" if h: "x = 0 \<or> 1 / 4 ^ 10 \<le> x \<and> x \<le> 4 ^ 10"
  proof (cases "x = 0")
    case True
    then show ?thesis by (simp add: fsqrt_def round64_zero fl_zero)
  next
    case False
    with h have b: "1 / 4 ^ 10 \<le> x" "x \<le> 4 ^ 10" by simp_all
    have x: "0 \<le> x" using b(1) by (smt (verit) divide_nonneg_nonneg zero_le_power)
    have s1: "sqrt (1 / 4 ^ 10) = 1 / 2 ^ 10"
      using real_sqrt_abs[of "1 / 2 ^ 10"] by (simp add: power2_eq_square)
    have s2: "sqrt (4 ^ 10) = 2 ^ 10"
      using real_sqrt_abs[of "2 ^ 10"] by (simp add: power2_eq_square)
    have "sqrt (1 / 4 ^ 10) \<le> sqrt x" "sqrt x \<le> sqrt (4 ^ 10)"
      using b by (simp_all only: real_sqrt_le_iff)
    then have "1 / 2 ^ 10 \<le> \<bar>sqrt x\<bar>" "\<bar>sqrt x\<bar> \<le> 2 ^ 10"
      using x by (simp_all only: s1 s2 abs_of_nonneg[OF real_sqrt_ge_zero[OF x]])
    then have "round64 (sqrt x) = Fin (fl (sqrt x))" by (rule round64_mid)
    then show ?thesis using x by (simp add: fsqrt_def)
  qed
qed


lemma f64_small2:
  "fl 4 = 4" "fmul 2 1 = 2" "fmul 2 2 = 4" "fadd 0 2 = 2" "fadd 0 4 = 4" "fadd 4 0 = 4"
  "fsqrt 4 = 2" "fsqrt 1 = 1" "fsqrt 0 = 0" "fdiv 2 2 = 1" "fmul 1 0 = 0" "fmul 0 1 = 0"
  "fmul 2 0 = 0"
proof -
  show 4: "fl 4 = 4" using fl_eval[of 4 50 "2 ^ 52"] by simp
  have s4: "sqrt 4 = 2" using real_sqrt_abs[of 2] by simp
  show "fmul 2 1 = 2" "fmul 2 2 = 4" "fadd 0 2 = 2" "fadd 0 4 = 4" "fadd 4 0 = 4"
    "fsqrt 4 = 2" "fsqrt 1 = 1" "fsqrt 0 = 0" "fdiv 2 2 = 1" "fmul 1 0 = 0" "fmul 0 1 = 0"
    "fmul 2 0 = 0"
    by (simp_all add: fmul_def fadd_def fsqrt_def fdiv_def fl_small 4 s4)
qed

lemma calculateSimilarity_ieee_values:
  "calculateSimilarity_ieee (ieee (scores 1 1 0 0 0)) (ieee (scores 1 1 0 0 0))
     = Fin (4503599627370495 / 2 ^ 52)"
  "calculateSimilarity_ieee (ieee (scores 1 1 1 0 0)) (ieee (scores 1 1 1 0 0))
     = Fin (4503599627370497 / 2 ^ 52)"
  "calculateSimilarity_ieee (ieee (scores 2 0 0 0 0)) (ieee (scores 1 0 0 0 0)) = Fin 1"
  "calculateSimilarity_ieee (ieee (scores 1 0 0 0 0)) (ieee (scores 1 0 0 0 0)) = Fin 1"
proof -
  have d2: "dotProduct_ieee (vec_ieee (ieee (scores 1 1 0 0 0))) (vec_ieee (ieee (scores 1 1 0 0 0)))
            = Fin 2"
    by (simp add: dotProduct_ieee_vec ieee_fields scores_fields mid_ops f64_small del: dadd.simps dmul.simps ddiv.simps dsqrt.simps)
  have m2: "magnitude_ieee (vec_ieee (ieee (scores 1 1 0 0 0))) = Fin (6369051672525773 / 2 ^ 52)"
    by (simp add: magnitude_ieee_vec ieee_fields scores_fields mid_ops f64_small f64_two(1) del: dadd.simps dmul.simps ddiv.simps dsqrt.simps)
  have p2: "dmul (Fin (6369051672525773 / 2 ^ 52)) (Fin (6369051672525773 / 2 ^ 52))
            = Fin (4503599627370497 / 2 ^ 51)"
  proof -
    have "dmul (Fin (6369051672525773 / 2 ^ 52)) (Fin (6369051672525773 / 2 ^ 52)) = Fin (fmul (6369051672525773 / 2 ^ 52) (6369051672525773 / 2 ^ 52))"
      by (rule mid_ops(1)) simp_all
    then show ?thesis by (simp only: f64_two(2))
  qed
  have q2: "ddiv (Fin 2) (Fin (4503599627370497 / 2 ^ 51)) = Fin (4503599627370495 / 2 ^ 52)"
  proof -
    have "ddiv (Fin (2)) (Fin (4503599627370497 / 2 ^ 51)) = Fin (fdiv (2) (4503599627370497 / 2 ^ 51))"
      by (rule mid_ops(3)) simp_all
    then show ?thesis by (simp only: f64_two(3))
  qed
  show "calculateSimilarity_ieee (ieee (scores 1 1 0 0 0)) (ieee (scores 1 1 0 0 0))
     = Fin (4503599627370495 / 2 ^ 52)"
    by (subst calculateSimilarity_ieee_quotient) (simp_all only: d2 m2 p2 q2, simp_all)
  have d3: "dotProduct_ieee (vec_ieee (ieee (scores 1 1 1 0 0))) (vec_ieee (ieee (scores 1 1 1 0 0)))
            = Fin 3"
    by (simp add: dotProduct_ieee_vec ieee_fields scores_fields mid_ops f64_small del: dadd.simps dmul.simps ddiv.simps dsqrt.simps)
  have m3: "magnitude_ieee (vec_ieee (ieee (scores 1 1 1 0 0))) = Fin (7800463371553962 / 2 ^ 52)"
    by (simp add: magnitude_ieee_vec ieee_fields scores_fields mid_ops f64_small f64_three(1) del: dadd.simps dmul.simps ddiv.simps dsqrt.simps)
  have p3: "dmul (Fin (7800463371553962 / 2 ^ 52)) (Fin (7800463371553962 / 2 ^ 52))
            = Fin (6755399441055743 / 2 ^ 51)"
  proof -
    have "dmul (Fin (7800463371553962 / 2 ^ 52)) (Fin (7800463371553962 / 2 ^ 52)) = Fin (fmul (7800463371553962 / 2 ^ 52) (7800463371553962 / 2 ^ 52))"
      by (rule mid_ops(1)) simp_all
    then show ?thesis by (simp only: f64_three(2))
  qed
  have q3: "ddiv (Fin 3) (Fin (6755399441055743 / 2 ^ 51)) = Fin (4503599627370497 / 2 ^ 52)"
  proof -
    have "ddiv (Fin (3)) (Fin (6755399441055743 / 2 ^ 51)) = Fin (fdiv (3) (6755399441055743 / 2 ^ 51))"
      by (rule mid_ops(3)) simp_all
    then show ?thesis by (simp only: f64_three(3))
  qed
  show "calculateSimilarity_ieee (ieee (scores 1 1 1 0 0)) (ieee (scores 1 1 1 0 0))
     = Fin (4503599627370497 / 2 ^ 52)"
    by (subst calculateSimilarity_ieee_quotient) (simp_all only: d3 m3 p3 q3, simp_all)
  have da: "dotProduct_ieee (vec_ieee (ieee (scores 2 0 0 0 0))) (vec_ieee (ieee (scores 1 0 0 0 0)))
            = Fin 2"
    by (simp add: dotProduct_ieee_vec ieee_fields scores_fields mid_ops f64_small f64_small2 del: dadd.simps dmul.simps ddiv.simps dsqrt.simps)
  have ma: "magnitude_ieee (vec_ieee (ieee (scores 2 0 0 0 0))) = Fin 2"
    by (simp add: magnitude_ieee_vec ieee_fields scores_fields mid_ops f64_small f64_small2 del: dadd.simps dmul.simps ddiv.simps dsqrt.simps)
  have mb: "magnitude_ieee (vec_ieee (ieee (scores 1 0 0 0 0))) = Fin 1"
    by (simp add: magnitude_ieee_vec ieee_fields scores_fields mid_ops f64_small f64_small2 del: dadd.simps dmul.simps ddiv.simps dsqrt.simps)
  show "calculateSimilarity_ieee (ieee (scores 2 0 0 0 0)) (ieee (scores 1 0 0 0 0)) = Fin 1"
    by (simp add: calculateSimilarity_ieee_def Let_def strictEq_zero da ma mb mid_ops
        f64_small f64_small2 del: dadd.simps dmul.simps ddiv.simps dsqrt.simps)
  have db: "dotProduct_ieee (vec_ieee (ieee (scores 1 0 0 0 0))) (vec_ieee (ieee (scores 1 0 0 0 0)))
            = Fin 1"
    by (simp add: dotProduct_ieee_vec ieee_fields scores_fields mid_ops f64_small f64_small2 del: dadd.simps dmul.simps ddiv.simps dsqrt.simps)
  show "calculateSimilarity_ieee (ieee (scores 1 0 0 0 0)) (ieee (scores 1 0 0 0 0)) = Fin 1"
    by (simp add: calculateSimilarity_ieee_def Let_def strictEq_zero db mb mid_ops
        f64_small f64_small2 fdiv_def fl_small del: dadd.simps dmul.simps ddiv.simps dsqrt.simps)
qed


lemma vec_ieee_exact_zero:
  assumes "magnitude (vec x) = 0"
  shows "vec_ieee (ieee x) = replicate 5 (Fin 0)"
  using assms magnitude_zero_iff[of x]
  by (simp add: vec_ieee_def ieee_fields numeral_eq_Suc)

subsection \<open>Zero magnitude\<close>

text \<open>
  C4. In double precision, with the infinities and \<^verbatim>\<open>NaN\<close>: when the magnitude of
  one of the two vectors is computed as zero, \<open>calculateSimilarity\<close> returns 0. The
  magnitude of a vector of zeros is computed as zero, so for such a vector and any other
  vector, whatever its components are, the result is 0, where the quotient that the
  guard skips would be \<^verbatim>\<open>NaN\<close>. When neither magnitude is zero the divisor
  \<open>magnitudeA * magnitudeB\<close> is not zero, since the product of two magnitudes does not
  underflow, so the division is never a division by zero. For components between 0 and
  1 the result is not \<^verbatim>\<open>NaN\<close>.
\<close>

theorem calculateSimilarity_zero_magnitude:
  "(magnitude_ieee (vec_ieee a) = Fin 0 \<or> magnitude_ieee (vec_ieee b) = Fin 0 \<longrightarrow>
      calculateSimilarity_ieee a b = Fin 0)
   \<and> (magnitude (vec x) = 0 \<longrightarrow>
        magnitude_ieee (vec_ieee (ieee x)) = Fin 0
        \<and> calculateSimilarity_ieee (ieee x) b = Fin 0
        \<and> calculateSimilarity_ieee a (ieee x) = Fin 0)
   \<and> (vec_ieee a = replicate 5 (Fin 0) \<or> vec_ieee b = replicate 5 (Fin 0) \<longrightarrow>
        calculateSimilarity_ieee a b = Fin 0
        \<and> ddiv (dotProduct_ieee (vec_ieee a) (vec_ieee b))
                (dmul (magnitude_ieee (vec_ieee a)) (magnitude_ieee (vec_ieee b))) = NaN)
   \<and> (magnitude_ieee (vec_ieee a) \<noteq> Fin 0 \<and> magnitude_ieee (vec_ieee b) \<noteq> Fin 0 \<longrightarrow>
        dmul (magnitude_ieee (vec_ieee a)) (magnitude_ieee (vec_ieee b)) \<noteq> Fin 0
        \<and> calculateSimilarity_ieee a b
            = ddiv (dotProduct_ieee (vec_ieee a) (vec_ieee b))
                   (dmul (magnitude_ieee (vec_ieee a)) (magnitude_ieee (vec_ieee b))))
   \<and> (validScores_ieee a \<and> validScores_ieee b \<longrightarrow> calculateSimilarity_ieee a b \<noteq> NaN)"
proof (intro conjI impI)
  assume "magnitude_ieee (vec_ieee a) = Fin 0 \<or> magnitude_ieee (vec_ieee b) = Fin 0"
  then show "calculateSimilarity_ieee a b = Fin 0" by (rule calculateSimilarity_ieee_guard)
next
  assume "magnitude (vec x) = 0"
  then have z: "vec_ieee (ieee x) = replicate 5 (Fin 0)" by (rule vec_ieee_exact_zero)
  then show m: "magnitude_ieee (vec_ieee (ieee x)) = Fin 0" by (rule magnitude_ieee_zero)
  then show "calculateSimilarity_ieee (ieee x) b = Fin 0"
    "calculateSimilarity_ieee a (ieee x) = Fin 0"
    by (simp_all add: calculateSimilarity_ieee_guard)
next
  assume z: "vec_ieee a = replicate 5 (Fin 0) \<or> vec_ieee b = replicate 5 (Fin 0)"
  then have "magnitude_ieee (vec_ieee a) = Fin 0 \<or> magnitude_ieee (vec_ieee b) = Fin 0"
    using magnitude_ieee_zero by blast
  then show "calculateSimilarity_ieee a b = Fin 0" by (rule calculateSimilarity_ieee_guard)
  from z show "ddiv (dotProduct_ieee (vec_ieee a) (vec_ieee b))
                (dmul (magnitude_ieee (vec_ieee a)) (magnitude_ieee (vec_ieee b))) = NaN"
    by (rule unguarded_quotient_NaN)
next
  assume nz: "magnitude_ieee (vec_ieee a) \<noteq> Fin 0 \<and> magnitude_ieee (vec_ieee b) \<noteq> Fin 0"
  then show "dmul (magnitude_ieee (vec_ieee a)) (magnitude_ieee (vec_ieee b)) \<noteq> Fin 0"
    by (simp add: divisor_nonzero)
  from nz show "calculateSimilarity_ieee a b
            = ddiv (dotProduct_ieee (vec_ieee a) (vec_ieee b))
                   (dmul (magnitude_ieee (vec_ieee a)) (magnitude_ieee (vec_ieee b)))"
    by (simp add: calculateSimilarity_ieee_quotient)
next
  assume "validScores_ieee a \<and> validScores_ieee b"
  then show "calculateSimilarity_ieee a b \<noteq> NaN"
    by (simp add: calculateSimilarity_ieee_valid)
qed

lemma magnitude_ieee_unit: "magnitude_ieee (vec_ieee (ieee (scores 1 0 0 0 0))) = Fin 1"
  by (simp add: magnitude_ieee_vec ieee_fields scores_fields round64_zero round64_small)

lemma valid_unit: "validScores_ieee (ieee (scores 1 0 0 0 0))"
  by (simp add: validScores_ieee_def vec_ieee_def ieee_fields scores_fields finiteUpTo_def)

theorem calculateSimilarity_zero_magnitude_witness:
  "magnitude (vec (scores 0 0 0 0 0)) = 0
   \<and> magnitude_ieee (vec_ieee (ieee (scores 0 0 0 0 0))) = Fin 0
   \<and> calculateSimilarity_ieee (ieee (scores 0 0 0 0 0)) (ieee (scores 1 0 (1 / 2) 0 0)) = Fin 0
   \<and> calculateSimilarity_ieee (ieee (scores 1 0 (1 / 2) 0 0)) (ieee (scores 0 0 0 0 0)) = Fin 0
   \<and> ddiv (dotProduct_ieee (vec_ieee (ieee (scores 0 0 0 0 0)))
                            (vec_ieee (ieee (scores 1 0 (1 / 2) 0 0))))
           (dmul (magnitude_ieee (vec_ieee (ieee (scores 0 0 0 0 0))))
                 (magnitude_ieee (vec_ieee (ieee (scores 1 0 (1 / 2) 0 0))))) = NaN
   \<and> magnitude_ieee (vec_ieee (ieee tinyScores)) = Fin 0
   \<and> calculateSimilarity_ieee (ieee tinyScores) (ieee (scores 1 0 (1 / 2) 0 0)) = Fin 0
   \<and> magnitude_ieee (vec_ieee (ieee (scores 1 0 0 0 0))) \<noteq> Fin 0
   \<and> dmul (magnitude_ieee (vec_ieee (ieee (scores 1 0 0 0 0))))
           (magnitude_ieee (vec_ieee (ieee (scores 1 0 0 0 0)))) \<noteq> Fin 0
   \<and> validScores_ieee (ieee (scores 1 0 0 0 0))
   \<and> calculateSimilarity_ieee (ieee (scores 1 0 0 0 0)) (ieee (scores 1 0 0 0 0)) \<noteq> NaN"
proof -
  let ?z = "scores 0 0 0 0 0" and ?b = "ieee (scores 1 0 (1 / 2) 0 0)"
    and ?u = "ieee (scores 1 0 0 0 0)"
  have m: "magnitude (vec ?z) = 0" by (simp add: magnitude_vec scores_def)
  have v: "vec_ieee (ieee ?z) = replicate 5 (Fin 0)" by (rule vec_ieee_zero)
  have u: "magnitude_ieee (vec_ieee ?u) \<noteq> Fin 0" by (simp add: magnitude_ieee_unit)
  from calculateSimilarity_zero_magnitude[of "ieee ?z" ?b ?z] m v
  have 1: "magnitude_ieee (vec_ieee (ieee ?z)) = Fin 0"
    "calculateSimilarity_ieee (ieee ?z) ?b = Fin 0"
    "ddiv (dotProduct_ieee (vec_ieee (ieee ?z)) (vec_ieee ?b))
          (dmul (magnitude_ieee (vec_ieee (ieee ?z))) (magnitude_ieee (vec_ieee ?b))) = NaN"
    by blast+
  from calculateSimilarity_zero_magnitude[of ?b ?b ?z] m
  have 2: "calculateSimilarity_ieee ?b (ieee ?z) = Fin 0" by blast
  from calculateSimilarity_zero_magnitude[of "ieee tinyScores" ?b ?z] magnitude_ieee_tiny
  have 3: "calculateSimilarity_ieee (ieee tinyScores) ?b = Fin 0" by blast
  from calculateSimilarity_zero_magnitude[of ?u ?u ?z] u valid_unit
  have 4: "dmul (magnitude_ieee (vec_ieee ?u)) (magnitude_ieee (vec_ieee ?u)) \<noteq> Fin 0"
    "calculateSimilarity_ieee ?u ?u \<noteq> NaN"
    by blast+
  show ?thesis
    by (intro conjI) (fact m 1 2 3 4 u valid_unit magnitude_ieee_tiny)+
qed

subsection \<open>Symmetry and range\<close>

text \<open>
  C7, as the claim states it, fails in its second half: for the vector \<open>(1, 1, 1, 0, 0)\<close>
  and itself the double-precision computation returns \<open>1 + 2 powr -52\<close>, printed as
  \<^verbatim>\<open>1.0000000000000002\<close>, which is greater than 1.
\<close>

theorem calculateSimilarity_f64_range_counterexample:
  "calculateSimilarity_f64 (scores 1 1 1 0 0) (scores 1 1 1 0 0) = 4503599627370497 / 2 ^ 52
   \<and> \<not> calculateSimilarity_f64 (scores 1 1 1 0 0) (scores 1 1 1 0 0) \<le> 1"
  by (simp add: calculateSimilarity_f64_three)

text \<open>
  C7, amended. The similarity of \<open>a\<close> and \<open>b\<close> is the similarity of \<open>b\<close> and \<open>a\<close>, in
  double precision as in exact arithmetic; in exact arithmetic it lies between \<open>-1\<close>
  and \<open>1\<close> (the inequality of Cauchy and Schwarz).
\<close>

theorem calculateSimilarity_symmetric_bounded:
  "calculateSimilarity_f64 a b = calculateSimilarity_f64 b a
   \<and> calculateSimilarity a b = calculateSimilarity b a
   \<and> - 1 \<le> calculateSimilarity a b \<and> calculateSimilarity a b \<le> 1"
proof (cases "magnitude (vec a) = 0 \<or> magnitude (vec b) = 0")
  case True
  then show ?thesis
    using calculateSimilarity_f64_commute[of a b]
    by (auto simp: calculateSimilarity_def Let_def)
next
  case False
  then have pos: "0 < magnitude (vec a) * magnitude (vec b)"
    using magnitude_nonneg[of a] magnitude_nonneg[of b] by (simp add: less_le)
  have b: "- (magnitude (vec a) * magnitude (vec b)) \<le> dotProduct (vec a) (vec b)"
          "dotProduct (vec a) (vec b) \<le> magnitude (vec a) * magnitude (vec b)"
    using dotProduct_bound[of a b] by linarith+
  have "- 1 \<le> dotProduct (vec a) (vec b) / (magnitude (vec a) * magnitude (vec b))"
    using b(1) pos by (simp add: pos_le_divide_eq)
  moreover have "dotProduct (vec a) (vec b) / (magnitude (vec a) * magnitude (vec b)) \<le> 1"
    using b(2) pos by (simp add: pos_divide_le_eq)
  moreover have "calculateSimilarity a b = calculateSimilarity b a"
    by (auto simp: calculateSimilarity_def Let_def dotProduct_commute mult.commute)
  ultimately show ?thesis
    using False calculateSimilarity_f64_commute[of a b]
    by (simp add: calculateSimilarity_def Let_def)
qed

subsection \<open>Similarity of a vector with itself\<close>

text \<open>
  C8, as the claim states it, fails: the vector \<open>(1, 1, 0, 0, 0)\<close> has a magnitude other
  than zero, and the double-precision computation of its similarity with itself returns
  \<open>1 - 2 powr -52\<close>, printed as \<^verbatim>\<open>0.9999999999999998\<close>.
\<close>

theorem calculateSimilarity_f64_self_counterexample:
  "magnitude_f64 (vec (scores 1 1 0 0 0)) \<noteq> 0
   \<and> calculateSimilarity_f64 (scores 1 1 0 0 0) (scores 1 1 0 0 0) = 4503599627370495 / 2 ^ 52
   \<and> calculateSimilarity_f64 (scores 1 1 0 0 0) (scores 1 1 0 0 0) \<noteq> 1"
  by (simp add: calculateSimilarity_f64_two)

text \<open>
  C8, amended. In exact arithmetic a vector of magnitude other than zero has similarity
  1 with itself.
\<close>

theorem calculateSimilarity_self_exact:
  "magnitude (vec a) \<noteq> 0 \<Longrightarrow> calculateSimilarity a a = 1"
  by (simp add: calculateSimilarity_def Let_def dotProduct_self)

theorem calculateSimilarity_self_exact_witness:
  "magnitude (vec (scores 1 1 0 0 0)) \<noteq> 0
   \<and> calculateSimilarity (scores 1 1 0 0 0) (scores 1 1 0 0 0) = 1"
proof -
  have "magnitude (vec (scores 1 1 0 0 0)) \<noteq> 0"
    by (simp add: magnitude_vec scores_def)
  with calculateSimilarity_self_exact[of "scores 1 1 0 0 0"] show ?thesis by blast
qed

subsection \<open>The genre table\<close>

lemma lookup2_cases:
  "lookup2 a b = Some e \<Longrightarrow> lookup2 b a = None"
  by (auto simp: lookup2_def similarities_def split: if_splits)

text \<open>
  C9, as the claim states it, fails: for two equal genres the reason is \<open>''Same genre''\<close>, and
  for a pair that the table does not list it is \<open>''Shared literary heritage''\<close>.
\<close>

theorem calculateGenreSimilarity_reason_counterexample:
  "reason_g (calculateGenreSimilarity ''Romance'' ''Romance'') \<noteq> ''Same category''
   \<and> lookup2 ''Romance'' ''Horror'' = None \<and> lookup2 ''Horror'' ''Romance'' = None
   \<and> reason_g (calculateGenreSimilarity ''Romance'' ''Horror'') \<noteq> ''Shared heritage''"
  by (simp add: calculateGenreSimilarity_def lookup2_def similarities_def)

text \<open>
  C9, amended. The lookup is symmetric; two equal genres have weight 1 and the reason
  \<open>''Same genre''\<close>; two different genres that the table lists in neither order have weight
  0.3 and the reason \<open>''Shared literary heritage''\<close>.
\<close>

theorem calculateGenreSimilarity_lookup:
  "calculateGenreSimilarity a b = calculateGenreSimilarity b a
   \<and> calculateGenreSimilarity a a = \<lparr>weight = 1, reason_g = ''Same genre''\<rparr>
   \<and> (a \<noteq> b \<and> lookup2 a b = None \<and> lookup2 b a = None \<longrightarrow>
        calculateGenreSimilarity a b = \<lparr>weight = 0.3, reason_g = ''Shared literary heritage''\<rparr>)"
proof -
  have "calculateGenreSimilarity a b = calculateGenreSimilarity b a"
    using lookup2_cases[of a b] lookup2_cases[of b a]
    by (auto simp: calculateGenreSimilarity_def Let_def split: option.splits)
  then show ?thesis
    by (simp add: calculateGenreSimilarity_def Let_def)
qed

theorem calculateGenreSimilarity_lookup_witness:
  "''Romance'' \<noteq> ''Horror'' \<and> lookup2 ''Romance'' ''Horror'' = None
   \<and> lookup2 ''Horror'' ''Romance'' = None
   \<and> calculateGenreSimilarity ''Romance'' ''Horror''
       = \<lparr>weight = 0.3, reason_g = ''Shared literary heritage''\<rparr>"
proof -
  have h: "''Romance'' \<noteq> ''Horror'' \<and> lookup2 ''Romance'' ''Horror'' = None
      \<and> lookup2 ''Horror'' ''Romance'' = None"
    by (simp add: lookup2_def similarities_def)
  with calculateGenreSimilarity_lookup[of "''Romance''" "''Horror''"] show ?thesis
    by blast
qed

subsection \<open>Union-find\<close>

lemma root_of_det: "root_of p x r \<Longrightarrow> root_of p x r' \<Longrightarrow> r = r'"
proof (induction arbitrary: r' rule: root_of.induct)
  case (root_self x)
  then show ?case by (auto elim: root_of.cases)
next
  case (root_step x r)
  from root_step.prems root_step.hyps(1,2) have "root_of p (p ! x) r'"
    by (auto elim: root_of.cases)
  then show ?case by (rule root_step.IH)
qed

lemma root_of_root: "root_of p x r \<Longrightarrow> r < length p \<and> p ! r = r"
  by (induction rule: root_of.induct) auto

lemma root_of_lt: "root_of p x r \<Longrightarrow> x < length p"
  by (auto elim: root_of.cases)

lemma rep_eq: "root_of p x r \<Longrightarrow> rep p x = r"
  unfolding rep_def by (blast intro: the_equality root_of_det)

lemma root_of_rep: "uf_inv p \<Longrightarrow> x < length p \<Longrightarrow> root_of p x (rep p x)"
  unfolding uf_inv_def using rep_eq by blast

lemma rep_lt: "uf_inv p \<Longrightarrow> x < length p \<Longrightarrow> rep p x < length p"
  using root_of_rep root_of_root by blast

lemma rep_root: "uf_inv p \<Longrightarrow> x < length p \<Longrightarrow> p ! rep p x = rep p x"
  using root_of_rep root_of_root by blast

lemma rep_idem: "uf_inv p \<Longrightarrow> x < length p \<Longrightarrow> rep p (rep p x) = rep p x"
  by (meson rep_eq rep_lt rep_root root_self)

lemma root_of_compress:
  assumes "root_of p x r" and "root_of p y s"
  shows "root_of (p[x := r]) y s"
  using assms(2)
proof (induction rule: root_of.induct)
  case (root_self y)
  show ?case
  proof (cases "y = x")
    case True
    with root_self assms(1) have "r = x"
      using root_of_det root_of.root_self by blast
    with True root_self show ?thesis by (simp add: root_of.root_self)
  next
    case False
    with root_self show ?thesis by (simp add: root_of.root_self)
  qed
next
  case (root_step y s)
  show ?case
  proof (cases "y = x")
    case True
    have ys: "root_of p y s" using root_step.hyps by (rule root_of.root_step)
    with True assms(1) have rs: "r = s" using root_of_det by blast
    have sroot: "s < length p" "p ! s = s" using root_of_root[OF ys] by auto
    with root_step.hyps(2) True have "s \<noteq> x" by auto
    then have "root_of (p[x := r]) s s" using sroot by (simp add: root_of.root_self)
    moreover have "(p[x := r]) ! y = s" using True rs root_step.hyps(1) by simp
    moreover have "s \<noteq> y" using \<open>s \<noteq> x\<close> True by simp
    ultimately show ?thesis using root_step.hyps(1)
      by (metis length_list_update root_of.root_step)
  next
    case False
    then have "(p[x := r]) ! y = p ! y" by simp
    with root_step show ?thesis
      by (metis length_list_update root_of.root_step)
  qed
qed

lemma find_uf_root:
  "root_of p x r \<Longrightarrow>
     \<exists>p'. find_uf p x = Some (r, p') \<and> length p' = length p
          \<and> (\<forall>y s. root_of p y s \<longrightarrow> root_of p' y s)"
proof (induction rule: root_of.induct)
  case (root_self x)
  then show ?case by (subst find_uf.simps) simp
next
  case (root_step x r)
  then obtain p1 where p1: "find_uf p (p ! x) = Some (r, p1)" "length p1 = length p"
      "\<forall>y s. root_of p y s \<longrightarrow> root_of p1 y s"
    by blast
  have "root_of p x r" using root_step.hyps by (rule root_of.root_step)
  then have x1: "root_of p1 x r" using p1(3) by blast
  have "find_uf p x = Some (r, p1[x := r])"
    using root_step.hyps(2) p1(1) by (subst find_uf.simps) simp
  moreover have "\<forall>y s. root_of p y s \<longrightarrow> root_of (p1[x := r]) y s"
    using p1(3) x1 root_of_compress by blast
  ultimately show ?case using p1(2) by simp
qed

lemma uf_inv_preserved:
  assumes "uf_inv p" "length p' = length p" "\<forall>y s. root_of p y s \<longrightarrow> root_of p' y s"
  shows "uf_inv p'" and "\<forall>y<length p. rep p' y = rep p y"
proof -
  show "uf_inv p'" using assms unfolding uf_inv_def by metis
  show "\<forall>y<length p. rep p' y = rep p y"
    using assms root_of_rep rep_eq by metis
qed

lemma find_uf_rep:
  assumes "uf_inv p" "x < length p"
  shows "\<exists>p'. find_uf p x = Some (rep p x, p') \<and> uf_inv p' \<and> length p' = length p
          \<and> (\<forall>y<length p. rep p' y = rep p y)"
proof -
  from find_uf_root[OF root_of_rep[OF assms]] obtain p' where
    p': "find_uf p x = Some (rep p x, p')" "length p' = length p"
        "\<forall>y s. root_of p y s \<longrightarrow> root_of p' y s"
    by blast
  with uf_inv_preserved[OF assms(1) p'(2) p'(3)] show ?thesis by blast
qed

lemma root_of_link:
  assumes "root_of p z s" and rx: "rx < length p" "p ! rx = rx"
    and ry: "ry < length p" "p ! ry = ry" and ne: "rx \<noteq> ry"
  shows "root_of (p[rx := ry]) z (if s = rx then ry else s)"
  using assms(1)
proof (induction rule: root_of.induct)
  case (root_self z)
  show ?case
  proof (cases "z = rx")
    case True
    have "root_of (p[rx := ry]) ry ry" using ry ne by (simp add: root_of.root_self)
    moreover have "(p[rx := ry]) ! rx = ry" using rx by simp
    ultimately have "root_of (p[rx := ry]) rx ry"
      using rx ne by (metis length_list_update root_of.root_step)
    with True show ?thesis by simp
  next
    case False
    with root_self show ?thesis by (simp add: root_of.root_self)
  qed
next
  case (root_step z s)
  then have "z \<noteq> rx" using rx by auto
  then have "(p[rx := ry]) ! z = p ! z" by simp
  with root_step show ?case
    by (metis length_list_update root_of.root_step)
qed

lemma union_uf_rep:
  assumes inv: "uf_inv p" and x: "x < length p" and y: "y < length p"
  shows "\<exists>p'. union_uf p x y = Some p' \<and> uf_inv p' \<and> length p' = length p
          \<and> (\<forall>z<length p. rep p' z = (if rep p z = rep p x then rep p y else rep p z))"
proof -
  from find_uf_rep[OF inv x] obtain p1 where
    p1: "find_uf p x = Some (rep p x, p1)" "uf_inv p1" "length p1 = length p"
        "\<forall>z<length p. rep p1 z = rep p z"
    by blast
  from find_uf_rep[OF p1(2), of y] y p1(3) obtain p2 where
    p2: "find_uf p1 y = Some (rep p1 y, p2)" "uf_inv p2" "length p2 = length p"
        "\<forall>z<length p. rep p2 z = rep p1 z"
    by auto
  have r2: "\<forall>z<length p. rep p2 z = rep p z" using p1(4) p2(4) by simp
  have ry1: "rep p1 y = rep p y" using p1(4) y by simp
  show ?thesis
  proof (cases "rep p x = rep p y")
    case True
    then have "union_uf p x y = Some p2"
      using p1(1) p2(1) ry1 by (simp add: union_uf_def)
    with p2 r2 True show ?thesis by auto
  next
    case False
    let ?q = "p2[rep p x := rep p y]"
    have u: "union_uf p x y = Some ?q"
      using p1(1) p2(1) ry1 False by (simp add: union_uf_def)
    have rx: "rep p x < length p2" "p2 ! rep p x = rep p x"
      using rep_lt[OF inv x] rep_root[OF p2(2), of x] r2 x p2(3) by auto
    have ry: "rep p y < length p2" "p2 ! rep p y = rep p y"
      using rep_lt[OF inv y] rep_root[OF p2(2), of y] r2 y p2(3) by auto
    have step: "root_of ?q z (if rep p z = rep p x then rep p y else rep p z)"
      if "z < length p" for z
    proof -
      have "root_of p2 z (rep p z)"
        using root_of_rep[OF p2(2), of z] that p2(3) r2 by simp
      from root_of_link[OF this rx ry False] show ?thesis .
    qed
    have "uf_inv ?q" unfolding uf_inv_def using step p2(3) by auto
    moreover have "\<forall>z<length p. rep ?q z = (if rep p z = rep p x then rep p y else rep p z)"
      using step rep_eq by blast
    ultimately show ?thesis using u p2(3) by simp
  qed
qed

lemma uf_inv_init: "uf_inv [0..<n]"
  unfolding uf_inv_def
proof (intro allI impI)
  fix x assume "x < length [0..<n]"
  then have "root_of [0..<n] x x" by (simp add: root_self)
  then show "\<exists>r. root_of [0..<n] x r" by blast
qed

lemma rep_init: "x < n \<Longrightarrow> rep [0..<n] x = x"
  by (rule rep_eq) (simp add: root_self)

subsection \<open>Sorting\<close>

lemma mset_insert_cmp: "mset (insert_cmp cmp x ys) = add_mset x (mset ys)"
  by (induction ys) auto

lemma mset_sort_js: "mset (sort_js cmp xs) = mset xs"
  unfolding sort_js_def by (induction xs) (auto simp: mset_insert_cmp)

lemma set_sort_js: "set (sort_js cmp xs) = set xs"
  using mset_sort_js[of cmp xs] by (metis set_mset_mset)

lemma length_sort_js: "length (sort_js cmp xs) = length xs"
  using mset_sort_js[of cmp xs] by (metis size_mset)

lemma insert_cmp_insort_key:
  assumes "\<And>x y. (cmp x y \<le> 0) = (key x \<le> key y)"
  shows "insert_cmp cmp x ys = insort_key key x ys"
  by (induction ys) (auto simp: assms)

lemma sort_js_sort_key:
  fixes key :: "'a \<Rightarrow> real"
  assumes "\<And>x y. (cmp x y \<le> 0) = (key x \<le> key y)"
  shows "sort_js cmp xs = sort_key key xs"
  unfolding sort_js_def sort_key_def
  by (induction xs) (auto simp: insert_cmp_insort_key[of cmp key, OF assms])

subsection \<open>Candidate pairs\<close>

lemma allPairs_range:
  "p \<in> set (allPairs bs) \<Longrightarrow> pair_i p < pair_j p \<and> pair_j p < length bs"
  by (auto simp: allPairs_def)

lemma allPairs_sim:
  "p \<in> set (allPairs bs) \<Longrightarrow>
     pair_sim p = calculateSimilarity (sentimentScores (bs ! pair_i p))
                                      (sentimentScores (bs ! pair_j p))"
  by (auto simp: allPairs_def)

lemma sortedPairs_set: "set (sortedPairs bs) = set (allPairs bs)"
  by (simp add: sortedPairs_def set_sort_js)

subsection \<open>Greedy selection\<close>

lemma selectLoop_inv:
  assumes "\<And>v. getCount cnt v = degree sel v" "\<And>v. degree sel v \<le> 3"
    "length sel < t \<or> ps = []"
  shows "(\<forall>v. degree (snd (selectLoop t ps (cnt, sel))) v \<le> 3)
       \<and> set (snd (selectLoop t ps (cnt, sel))) \<subseteq> set sel \<union> set ps
       \<and> length (snd (selectLoop t ps (cnt, sel))) \<le> max t (length sel)
       \<and> (\<exists>rest. snd (selectLoop t ps (cnt, sel)) = sel @ rest)"
  using assms
proof (induction ps arbitrary: cnt sel)
  case Nil
  then show ?case by simp
next
  case (Cons p ps)
  from Cons.prems(3) have lt: "length sel < t" by simp
  show ?case
  proof (cases "getCount cnt (pair_i p) < maxConnectionsPerNode
                \<and> getCount cnt (pair_j p) < maxConnectionsPerNode")
    case False
    then have eq: "selectLoop t (p # ps) (cnt, sel) = selectLoop t ps (cnt, sel)"
      by (auto simp: Let_def)
    have "length sel < t \<or> ps = []" using lt by simp
    from Cons.IH[OF Cons.prems(1) Cons.prems(2) this] show ?thesis
      unfolding eq by auto
  next
    case True
    define sel' where "sel' = sel @ [p]"
    define cnt' where "cnt' = (cnt(pair_i p \<mapsto> getCount cnt (pair_i p) + 1))
                  (pair_j p \<mapsto> getCount cnt (pair_j p) + 1)"
    have c: "getCount cnt' v = degree sel' v" for v
      using Cons.prems(1)[of v] Cons.prems(1)[of "pair_i p"] Cons.prems(1)[of "pair_j p"]
      by (auto simp: getCount_def degree_def cnt'_def sel'_def)
    have d: "degree sel' v \<le> 3" for v
      using Cons.prems(2)[of v] True Cons.prems(1)[of "pair_i p"] Cons.prems(1)[of "pair_j p"]
      by (auto simp: degree_def maxConnectionsPerNode_def sel'_def)
    show ?thesis
    proof (cases "length sel' \<ge> t")
      case True
      then have eq: "selectLoop t (p # ps) (cnt, sel) = (cnt', sel')"
        using \<open>getCount cnt (pair_i p) < maxConnectionsPerNode
                \<and> getCount cnt (pair_j p) < maxConnectionsPerNode\<close>
        by (simp add: Let_def cnt'_def sel'_def)
      have "length sel' \<le> max t (length sel)" using lt by (simp add: sel'_def)
      moreover have "set sel' \<subseteq> set sel \<union> set (p # ps)" by (auto simp: sel'_def)
      moreover have "\<exists>rest. sel' = sel @ rest" by (simp add: sel'_def)
      ultimately show ?thesis unfolding eq using d by simp
    next
      case False
      then have eq: "selectLoop t (p # ps) (cnt, sel) = selectLoop t ps (cnt', sel')"
        using True by (simp add: Let_def cnt'_def sel'_def)
      have "length sel' < t \<or> ps = []" using False by simp
      from Cons.IH[OF c d this]
      have ih: "\<forall>v. degree (snd (selectLoop t ps (cnt', sel'))) v \<le> 3"
        "set (snd (selectLoop t ps (cnt', sel'))) \<subseteq> set sel' \<union> set ps"
        "length (snd (selectLoop t ps (cnt', sel'))) \<le> max t (length sel')"
        "\<exists>rest. snd (selectLoop t ps (cnt', sel')) = sel' @ rest"
        by blast+
      have "set (snd (selectLoop t ps (cnt', sel'))) \<subseteq> set sel \<union> set (p # ps)"
        using ih(2) by (auto simp: sel'_def)
      moreover have "length (snd (selectLoop t ps (cnt', sel'))) \<le> max t (length sel)"
        using ih(3) False lt by (simp add: sel'_def)
      moreover have "\<exists>rest. snd (selectLoop t ps (cnt', sel')) = sel @ rest"
        using ih(4) by (auto simp: sel'_def)
      ultimately show ?thesis unfolding eq using ih(1) by simp
    qed
  qed
qed

lemma targetTotalConnections_pos: "bs \<noteq> [] \<Longrightarrow> 0 < targetTotalConnections bs"
  by (cases bs) (auto simp: targetTotalConnections_def algebra_simps)

lemma selectedPairs_props:
  "(\<forall>v. degree (selectedPairs bs) v \<le> 3)
   \<and> set (selectedPairs bs) \<subseteq> set (allPairs bs)
   \<and> (bs \<noteq> [] \<longrightarrow> length (selectedPairs bs) \<le> targetTotalConnections bs)"
proof (cases "bs = []")
  case True
  then show ?thesis
    by (simp add: selectedPairs_def sortedPairs_def allPairs_def sort_js_def degree_def)
next
  case False
  have "length ([]::Pair list) < targetTotalConnections bs \<or> sortedPairs bs = []"
    using targetTotalConnections_pos[OF False] by simp
  from selectLoop_inv[of Map.empty "[]", OF _ _ this]
  show ?thesis
    using False by (simp add: selectedPairs_def sortedPairs_set getCount_def degree_def)
qed

lemma length_prunedPairs:
  "length (prunedPairs bs) = nat \<lceil>0.7 * real (length (selectedPairs bs))\<rceil>"
proof -
  define n where "n = length (selectedPairs bs)"
  define k where "k = nat \<lceil>real n * 0.7\<rceil>"
  have "real n * 0.7 \<le> real n" by simp
  then have "\<lceil>real n * 0.7\<rceil> \<le> int n" by (simp only: ceiling_le_iff of_int_of_nat_eq)
  then have kn: "k \<le> n" unfolding k_def by simp
  have k1: "n = 0 \<or> 1 \<le> k"
  proof (cases "n = 0")
    case False
    then have "0 < real n * 0.7" by simp
    then have "0 < \<lceil>real n * 0.7\<rceil>" by (simp only: zero_less_ceiling)
    then have "1 \<le> nat \<lceil>real n * 0.7\<rceil>" by linarith
    then show ?thesis unfolding k_def by blast
  qed simp
  have "length (prunedPairs bs) = min n (max 1 k)"
    by (simp add: prunedPairs_def edgesToKeep_def length_sort_js n_def k_def)
  also have "\<dots> = k" using kn k1 by auto
  finally show ?thesis by (simp add: k_def n_def mult.commute)
qed

lemma prunedPairs_subset: "set (prunedPairs bs) \<subseteq> set (allPairs bs)"
proof -
  have "set (prunedPairs bs) \<subseteq> set (selectedPairs bs)"
    unfolding prunedPairs_def using set_take_subset set_sort_js by fast
  with selectedPairs_props[of bs] show ?thesis by blast
qed

subsection \<open>The map from identifiers to indices\<close>

lemma nodeIdToIndex_snoc:
  "nodeIdToIndex (bs @ [b]) = (nodeIdToIndex bs)(id_node b \<mapsto> length bs)"
  by (simp add: nodeIdToIndex_def)

lemma nodeIdToIndex_range:
  "nodeIdToIndex bs k = Some i \<Longrightarrow> i < length bs \<and> id_node (bs ! i) = k"
proof (induction bs arbitrary: i rule: rev_induct)
  case Nil
  then show ?case by (simp add: nodeIdToIndex_def)
next
  case (snoc b bs)
  then show ?case
    by (auto simp: nodeIdToIndex_snoc nth_append less_Suc_eq split: if_splits)
qed

lemma nodeIdToIndex_distinct:
  "distinct (map id_node bs) \<Longrightarrow> i < length bs \<Longrightarrow> nodeIdToIndex bs (id_node (bs ! i)) = Some i"
proof (induction bs rule: rev_induct)
  case Nil
  then show ?case by simp
next
  case (snoc b bs)
  show ?case
  proof (cases "i < length bs")
    case True
    then have "id_node (bs ! i) \<in> id_node ` set bs" by simp
    with snoc.prems(1) have "id_node (bs ! i) \<noteq> id_node b" by auto
    with snoc True show ?thesis
      by (simp add: nodeIdToIndex_snoc nth_append)
  next
    case False
    with snoc.prems(2) have "i = length bs" by simp
    then show ?thesis by (simp add: nodeIdToIndex_snoc)
  qed
qed

lemma nodeIdToIndex_None:
  "k \<notin> id_node ` set bs \<Longrightarrow> nodeIdToIndex bs k = None"
  by (induction bs rule: rev_induct) (auto simp: nodeIdToIndex_snoc nodeIdToIndex_def)

lemma searchedIdx_lt: "bs \<noteq> [] \<Longrightarrow> searchedIdx bs h < length bs"
  by (auto simp: searchedIdx_def dest: nodeIdToIndex_range split: option.splits)

subsection \<open>The loops over the union-find array\<close>

lemma unionLinks_spec:
  assumes idx: "\<forall>k i. idx k = Some i \<longrightarrow> i < n"
    and R: "symp R" "transp R"
    and "uf_inv p" "length p = n"
    and "\<forall>x<n. \<forall>y<n. rep p x = rep p y \<longrightarrow> R x y"
    and "\<forall>l\<in>set ls. \<forall>a b. idx (source l) = Some a \<and> idx (target l) = Some b \<longrightarrow> R a b"
  shows "\<exists>p'. unionLinks idx ls p = Some p' \<and> uf_inv p' \<and> length p' = n
     \<and> (\<forall>x<n. \<forall>y<n. rep p x = rep p y \<longrightarrow> rep p' x = rep p' y)
     \<and> (\<forall>l\<in>set ls. \<forall>a b. idx (source l) = Some a \<and> idx (target l) = Some b
            \<longrightarrow> rep p' a = rep p' b)
     \<and> (\<forall>x<n. \<forall>y<n. rep p' x = rep p' y \<longrightarrow> R x y)"
  using assms(4-)
proof (induction ls arbitrary: p)
  case Nil
  then show ?case by simp
next
  case (Cons l ls)
  have Rls: "\<forall>l\<in>set ls. \<forall>a b. idx (source l) = Some a \<and> idx (target l) = Some b \<longrightarrow> R a b"
    using Cons.prems(4) by simp
  show ?case
  proof (cases "\<exists>a b. idx (source l) = Some a \<and> idx (target l) = Some b")
    case False
    then have eq: "unionLinks idx (l # ls) p = unionLinks idx ls p"
      by (auto split: option.splits)
    from Cons.IH[OF Cons.prems(1,2,3) Rls] obtain p' where
      p': "unionLinks idx ls p = Some p'" "uf_inv p'" "length p' = n"
        "\<forall>x<n. \<forall>y<n. rep p x = rep p y \<longrightarrow> rep p' x = rep p' y"
        "\<forall>l\<in>set ls. \<forall>a b. idx (source l) = Some a \<and> idx (target l) = Some b
            \<longrightarrow> rep p' a = rep p' b"
        "\<forall>x<n. \<forall>y<n. rep p' x = rep p' y \<longrightarrow> R x y"
      by blast
    have B: "\<forall>l\<in>set (l # ls). \<forall>a b. idx (source l) = Some a \<and> idx (target l) = Some b
            \<longrightarrow> rep p' a = rep p' b"
    proof (intro ballI allI impI)
      fix l' a' b'
      assume l': "l' \<in> set (l # ls)"
        and h: "idx (source l') = Some a' \<and> idx (target l') = Some b'"
      from l' h False have "l' \<in> set ls" by auto
      with p'(5) h show "rep p' a' = rep p' b'" by blast
    qed
    show ?thesis unfolding eq
      by (intro exI[of _ p'] conjI) (fact p'(1) p'(2) p'(3) p'(4) B p'(6))+
  next
    case True
    then obtain a b where ab: "idx (source l) = Some a" "idx (target l) = Some b" by blast
    then have lt: "a < length p" "b < length p" using idx Cons.prems(2) by auto
    from union_uf_rep[OF Cons.prems(1) lt] Cons.prems(2) obtain p1 where
      p1: "union_uf p a b = Some p1" "uf_inv p1" "length p1 = n"
        "\<forall>z<n. rep p1 z = (if rep p z = rep p a then rep p b else rep p z)"
      by auto
    have eq: "unionLinks idx (l # ls) p = unionLinks idx ls p1"
      using ab p1(1) by simp
    have an: "a < n" "b < n" using lt Cons.prems(2) by auto
    have Rab: "R a b" using Cons.prems(4) ab by simp
    then have Rba: "R b a" using R(1) by (simp add: sympD)
    have R1: "R x y" if xy: "x < n" "y < n" "rep p1 x = rep p1 y" for x y
    proof -
      consider (aa) "rep p x = rep p a" "rep p y = rep p a"
        | (ab) "rep p x = rep p a" "rep p y \<noteq> rep p a"
        | (ba) "rep p x \<noteq> rep p a" "rep p y = rep p a"
        | (nn) "rep p x \<noteq> rep p a" "rep p y \<noteq> rep p a"
        by blast
      then show ?thesis
      proof cases
        case aa
        then show ?thesis using Cons.prems(3) xy by simp
      next
        case ab
        then have "rep p b = rep p y" using xy p1(4) by simp
        then have "R b y" using Cons.prems(3) an xy by simp
        moreover have "R x a" using Cons.prems(3) ab(1) an xy by simp
        ultimately show ?thesis using Rab R(2) by (meson transpD)
      next
        case ba
        then have "rep p x = rep p b" using xy p1(4) by simp
        then have "R x b" using Cons.prems(3) an xy by simp
        moreover have "R a y" using Cons.prems(3) ba(2) an xy by simp
        ultimately show ?thesis using Rba R(2) by (meson transpD)
      next
        case nn
        then have "rep p x = rep p y" using xy p1(4) by simp
        then show ?thesis using Cons.prems(3) xy by simp
      qed
    qed
    then have R1': "\<forall>x<n. \<forall>y<n. rep p1 x = rep p1 y \<longrightarrow> R x y" by blast
    from Cons.IH[OF p1(2,3) R1' Rls] obtain p' where
      p': "unionLinks idx ls p1 = Some p'" "uf_inv p'" "length p' = n"
        "\<forall>x<n. \<forall>y<n. rep p1 x = rep p1 y \<longrightarrow> rep p' x = rep p' y"
        "\<forall>l\<in>set ls. \<forall>a b. idx (source l) = Some a \<and> idx (target l) = Some b
            \<longrightarrow> rep p' a = rep p' b"
        "\<forall>x<n. \<forall>y<n. rep p' x = rep p' y \<longrightarrow> R x y"
      by blast
    have mono1: "\<forall>x<n. \<forall>y<n. rep p x = rep p y \<longrightarrow> rep p1 x = rep p1 y"
      using p1(4) by simp
    have ab1: "rep p1 a = rep p1 b" using p1(4) an by simp
    have A: "\<forall>x<n. \<forall>y<n. rep p x = rep p y \<longrightarrow> rep p' x = rep p' y"
      using mono1 p'(4) by blast
    have B: "\<forall>l\<in>set (l # ls). \<forall>a b. idx (source l) = Some a \<and> idx (target l) = Some b
            \<longrightarrow> rep p' a = rep p' b"
    proof (intro ballI allI impI)
      fix l' a' b'
      assume l': "l' \<in> set (l # ls)"
        and h: "idx (source l') = Some a' \<and> idx (target l') = Some b'"
      show "rep p' a' = rep p' b'"
      proof (cases "l' = l")
        case True
        with h ab have "a' = a" "b' = b" by auto
        with p'(4) ab1 an show ?thesis by blast
      next
        case False
        with l' have "l' \<in> set ls" by simp
        with p'(5) h show ?thesis by blast
      qed
    qed
    show ?thesis unfolding eq
      by (intro exI[of _ p'] conjI) (fact p'(1) p'(2) p'(3) A B p'(6))+
  qed
qed

lemma collectComponents_spec:
  assumes "uf_inv p" "length p = n" "\<forall>x\<in>set xs. x < n"
  shows "\<exists>comps p'. collectComponents sc xs p acc = Some (comps, p') \<and> uf_inv p'
     \<and> length p' = n \<and> (\<forall>y<n. rep p' y = rep p y)
     \<and> set comps = set acc \<union> (rep p ` set xs - {sc})
     \<and> (distinct acc \<longrightarrow> distinct comps)"
  using assms
proof (induction xs arbitrary: p acc)
  case Nil
  then show ?case by simp
next
  case (Cons x xs)
  from Cons.prems have x: "x < length p" by simp
  from find_uf_rep[OF Cons.prems(1) x] Cons.prems(2) obtain p1 where
    p1: "find_uf p x = Some (rep p x, p1)" "uf_inv p1" "length p1 = n"
        "\<forall>y<n. rep p1 y = rep p y"
    by auto
  define acc' where
    "acc' = (if rep p x \<noteq> sc then set_add acc (rep p x) else acc)"
  have eq: "collectComponents sc (x # xs) p acc = collectComponents sc xs p1 acc'"
    using p1(1) by (simp add: acc'_def)
  have xs: "\<forall>x\<in>set xs. x < n" using Cons.prems(3) by simp
  from Cons.IH[OF p1(2,3) xs, of acc'] obtain comps p' where
    r: "collectComponents sc xs p1 acc' = Some (comps, p')" "uf_inv p'" "length p' = n"
       "\<forall>y<n. rep p' y = rep p1 y"
       "set comps = set acc' \<union> (rep p1 ` set xs - {sc})"
       "distinct acc' \<longrightarrow> distinct comps"
    by blast
  have img: "rep p1 ` set xs = rep p ` set xs"
    using p1(4) xs by (auto simp: image_iff)
  have "set acc' = set acc \<union> ({rep p x} - {sc})"
    by (auto simp: acc'_def set_add_def)
  then have s: "set comps = set acc \<union> (rep p ` set (x # xs) - {sc})"
    using r(5) img by auto
  have d: "distinct acc \<longrightarrow> distinct comps"
    using r(6) by (auto simp: acc'_def set_add_def)
  have "\<forall>y<n. rep p' y = rep p y" using r(4) p1(4) by simp
  with r(1,2,3) s d show ?case unfolding eq by blast
qed

lemma nodesInComponent_spec:
  assumes "uf_inv p" "length p = n" "\<forall>x\<in>set xs. x < n"
  shows "\<exists>p'. nodesInComponent c xs p = Some (filter (\<lambda>x. rep p x = c) xs, p') \<and> uf_inv p'
     \<and> length p' = n \<and> (\<forall>y<n. rep p' y = rep p y)"
  using assms
proof (induction xs arbitrary: p)
  case Nil
  then show ?case by simp
next
  case (Cons x xs)
  from Cons.prems have x: "x < length p" by simp
  from find_uf_rep[OF Cons.prems(1) x] Cons.prems(2) obtain p1 where
    p1: "find_uf p x = Some (rep p x, p1)" "uf_inv p1" "length p1 = n"
        "\<forall>y<n. rep p1 y = rep p y"
    by auto
  have xs: "\<forall>x\<in>set xs. x < n" using Cons.prems(3) by simp
  from Cons.IH[OF p1(2,3) xs] obtain p' where
    r: "nodesInComponent c xs p1 = Some (filter (\<lambda>x. rep p1 x = c) xs, p')" "uf_inv p'"
       "length p' = n" "\<forall>y<n. rep p' y = rep p1 y"
    by blast
  have f: "filter (\<lambda>x. rep p1 x = c) xs = filter (\<lambda>x. rep p x = c) xs"
    using p1(4) xs by (auto intro: filter_cong)
  have "nodesInComponent c (x # xs) p
        = Some (filter (\<lambda>x. rep p x = c) (x # xs), p')"
    using p1(1) r(1) f by simp
  moreover have "\<forall>y<n. rep p' y = rep p y" using r(4) p1(4) by simp
  ultimately show ?case using r(2,3) by blast
qed

subsection \<open>The best node of a component\<close>

lemma bestNode_foldl:
  "foldl (\<lambda>(bestNodeIdx, bestSimilarity) nodeIdx.
              let sim = calculateSimilarity (sentimentScores (bs ! nodeIdx))
                                            (sentimentScores (bs ! s))
              in if sim > bestSimilarity then (Some nodeIdx, sim)
                 else (bestNodeIdx, bestSimilarity)) (b0, s0) xs = (b, v)
   \<Longrightarrow> (b = b0 \<and> v = s0 \<and> (\<forall>x\<in>set xs. simTo bs s x \<le> s0))
       \<or> (\<exists>x\<in>set xs. b = Some x \<and> v = simTo bs s x \<and> s0 < v)"
proof (induction xs arbitrary: b0 s0)
  case Nil
  then show ?case by simp
next
  case (Cons x xs)
  show ?case
  proof (cases "simTo bs s x > s0")
    case True
    with Cons.prems have
      "foldl (\<lambda>(bestNodeIdx, bestSimilarity) nodeIdx.
              let sim = calculateSimilarity (sentimentScores (bs ! nodeIdx))
                                            (sentimentScores (bs ! s))
              in if sim > bestSimilarity then (Some nodeIdx, sim)
                 else (bestNodeIdx, bestSimilarity)) (Some x, simTo bs s x) xs = (b, v)"
      by (simp add: simTo_def Let_def)
    from Cons.IH[OF this] True show ?thesis by auto
  next
    case False
    with Cons.prems have
      "foldl (\<lambda>(bestNodeIdx, bestSimilarity) nodeIdx.
              let sim = calculateSimilarity (sentimentScores (bs ! nodeIdx))
                                            (sentimentScores (bs ! s))
              in if sim > bestSimilarity then (Some nodeIdx, sim)
                 else (bestNodeIdx, bestSimilarity)) (b0, s0) xs = (b, v)"
      by (simp add: simTo_def Let_def)
    from Cons.IH[OF this] False show ?thesis by auto
  qed
qed

lemma bestNode_cases:
  "bestNode bs s xs = (b, v) \<Longrightarrow>
     (b = None \<and> (\<forall>x\<in>set xs. simTo bs s x \<le> - 1))
     \<or> (\<exists>x\<in>set xs. b = Some x \<and> v = simTo bs s x)"
  unfolding bestNode_def by (drule bestNode_foldl) auto

subsection \<open>The repair loop\<close>

lemma repairLoop_total:
  assumes "uf_inv p" "length p = length bs" "s < length bs"
  shows "\<exists>p' bests. repairLoop bs s cs (p, ls)
            = Some (p', ls @ map (\<lambda>b. repairLink bs b s (simTo bs s b)) bests)
          \<and> uf_inv p' \<and> length p' = length bs \<and> (\<forall>b\<in>set bests. b < length bs)"
  using assms(1,2)
proof (induction cs arbitrary: p ls)
  case Nil
  have "repairLoop bs s [] (p, ls)
        = Some (p, ls @ map (\<lambda>b. repairLink bs b s (simTo bs s b)) [])"
    by simp
  with Nil show ?case by (metis empty_iff list.set(1))
next
  case (Cons c cs)
  have r: "\<forall>x\<in>set [0..<length bs]. x < length bs" by simp
  from nodesInComponent_spec[OF Cons.prems(1,2) r, of c] obtain p1 where
    p1: "nodesInComponent c [0..<length bs] p
           = Some (filter (\<lambda>x. rep p x = c) [0..<length bs], p1)"
        "uf_inv p1" "length p1 = length bs"
    by blast
  define inC where "inC = filter (\<lambda>x. rep p x = c) [0..<length bs]"
  obtain b v where bv: "bestNode bs s inC = (b, v)" by (cases "bestNode bs s inC")
  show ?case
  proof (cases b)
    case None
    then have eq: "repairLoop bs s (c # cs) (p, ls) = repairLoop bs s cs (p1, ls)"
      using p1(1) bv by (simp add: inC_def)
    from Cons.IH[OF p1(2,3)] show ?thesis unfolding eq .
  next
    case (Some x)
    with bestNode_cases[OF bv] have x: "x \<in> set inC" "v = simTo bs s x" by auto
    then have xl: "x < length p1" using p1(3) by (simp add: inC_def)
    from union_uf_rep[OF p1(2) xl, of s] assms(3) p1(3) obtain p2 where
      p2: "union_uf p1 x s = Some p2" "uf_inv p2" "length p2 = length bs"
      by auto
    have eq: "repairLoop bs s (c # cs) (p, ls)
              = repairLoop bs s cs (p2, ls @ [repairLink bs x s (simTo bs s x)])"
      using p1(1) bv Some x(2) p2(1) by (simp add: inC_def)
    from Cons.IH[OF p2(2,3), of "ls @ [repairLink bs x s (simTo bs s x)]"]
    obtain p' bests where
      r: "repairLoop bs s cs (p2, ls @ [repairLink bs x s (simTo bs s x)])
            = Some (p', (ls @ [repairLink bs x s (simTo bs s x)])
                        @ map (\<lambda>b. repairLink bs b s (simTo bs s b)) bests)"
         "uf_inv p'" "length p' = length bs" "\<forall>b\<in>set bests. b < length bs"
      by blast
    have "repairLoop bs s (c # cs) (p, ls)
          = Some (p', ls @ map (\<lambda>b. repairLink bs b s (simTo bs s b)) (x # bests))"
      unfolding eq using r(1) by simp
    moreover have "\<forall>b\<in>set (x # bests). b < length bs"
      using r(4) xl p1(3) by simp
    ultimately show ?thesis using r(2,3) by blast
  qed
qed

lemma repairLoop_spec:
  assumes s: "s < length bs" and sim: "\<forall>x<length bs. - 1 < simTo bs s x"
    and "uf_inv p" "length p = length bs"
    and "distinct cs" "rep p s \<notin> set cs" "\<forall>c\<in>set cs. \<exists>x<length bs. rep p x = c"
  shows "\<exists>p' bests. repairLoop bs s cs (p, ls)
            = Some (p', ls @ map (\<lambda>b. repairLink bs b s (simTo bs s b)) bests)
          \<and> uf_inv p' \<and> length p' = length bs \<and> (\<forall>b\<in>set bests. b < length bs)
          \<and> map (rep p) bests = cs"
  using assms(3-)
proof (induction cs arbitrary: p ls)
  case Nil
  have "repairLoop bs s [] (p, ls)
        = Some (p, ls @ map (\<lambda>b. repairLink bs b s (simTo bs s b)) [])"
    by simp
  moreover have "map (rep p) [] = []" by simp
  ultimately show ?case using Nil.prems(1,2) by (metis empty_iff list.set(1))
next
  case (Cons c cs)
  let ?n = "length bs"
  have r: "\<forall>x\<in>set [0..<?n]. x < ?n" by simp
  from nodesInComponent_spec[OF Cons.prems(1,2) r, of c] obtain p1 where
    p1: "nodesInComponent c [0..<?n] p = Some (filter (\<lambda>x. rep p x = c) [0..<?n], p1)"
        "uf_inv p1" "length p1 = ?n" "\<forall>y<?n. rep p1 y = rep p y"
    by blast
  define inC where "inC = filter (\<lambda>x. rep p x = c) [0..<?n]"
  from Cons.prems(5) obtain x0 where x0: "x0 < ?n" "rep p x0 = c" by auto
  then have x0in: "x0 \<in> set inC" by (simp add: inC_def)
  obtain b v where bv: "bestNode bs s inC = (b, v)" by (cases "bestNode bs s inC")
  have "b \<noteq> None"
  proof
    assume "b = None"
    with bestNode_cases[OF bv] have "\<forall>x\<in>set inC. simTo bs s x \<le> - 1" by auto
    with x0in have "simTo bs s x0 \<le> - 1" by blast
    with sim x0(1) show False by force
  qed
  then obtain x where bx: "b = Some x" by auto
  with bestNode_cases[OF bv] have x: "x \<in> set inC" "v = simTo bs s x" by auto
  then have xn: "x < ?n" and xc: "rep p x = c" by (auto simp: inC_def)
  have xl: "x < length p1" "s < length p1" using xn s p1(3) by auto
  from union_uf_rep[OF p1(2) xl] p1(3) obtain p2 where
    p2: "union_uf p1 x s = Some p2" "uf_inv p2" "length p2 = ?n"
        "\<forall>z<?n. rep p2 z = (if rep p1 z = rep p1 x then rep p1 s else rep p1 z)"
    by auto
  have cs_ne: "rep p s \<noteq> c" "c \<notin> set cs" "rep p s \<notin> set cs"
    using Cons.prems(3,4) by auto
  have rep2: "rep p2 z = (if rep p z = c then rep p s else rep p z)" if "z < ?n" for z
    using p2(4) p1(4) that xn s xc by simp
  have rep2s: "rep p2 s = rep p s" using rep2[OF s] cs_ne(1) by simp
  have eq: "repairLoop bs s (c # cs) (p, ls)
            = repairLoop bs s cs (p2, ls @ [repairLink bs x s (simTo bs s x)])"
    using p1(1) bv bx x(2) p2(1) by (simp add: inC_def)
  have d: "distinct cs" using Cons.prems(3) by simp
  have ns: "rep p2 s \<notin> set cs" using rep2s cs_ne(3) by simp
  have ex: "\<forall>c'\<in>set cs. \<exists>x<?n. rep p2 x = c'"
  proof
    fix c' assume c': "c' \<in> set cs"
    with Cons.prems(5) obtain y where y: "y < ?n" "rep p y = c'" by auto
    with c' cs_ne(2) have "rep p y \<noteq> c" by auto
    with rep2[OF y(1)] y(2) have "rep p2 y = c'" by simp
    with y(1) show "\<exists>x<?n. rep p2 x = c'" by blast
  qed
  from Cons.IH[OF p2(2,3) d ns ex, of "ls @ [repairLink bs x s (simTo bs s x)]"]
  obtain p' bests where
    r: "repairLoop bs s cs (p2, ls @ [repairLink bs x s (simTo bs s x)])
          = Some (p', (ls @ [repairLink bs x s (simTo bs s x)])
                      @ map (\<lambda>b. repairLink bs b s (simTo bs s b)) bests)"
       "uf_inv p'" "length p' = ?n" "\<forall>b\<in>set bests. b < ?n"
       "map (rep p2) bests = cs"
    by blast
  have "rep p b' = rep p2 b'" if b': "b' \<in> set bests" for b'
  proof -
    from b' r(4) have bn: "b' < ?n" by blast
    from b' r(5) have in_cs: "rep p2 b' \<in> set cs" by (metis image_eqI list.set_map)
    show ?thesis
    proof (cases "rep p b' = c")
      case True
      with rep2[OF bn] have "rep p2 b' = rep p s" by simp
      with in_cs cs_ne(3) show ?thesis by simp
    next
      case False
      with rep2[OF bn] show ?thesis by simp
    qed
  qed
  then have "map (rep p) bests = map (rep p2) bests" by simp
  with r(5) xc have m: "map (rep p) (x # bests) = c # cs" by simp
  have res: "repairLoop bs s (c # cs) (p, ls)
        = Some (p', ls @ map (\<lambda>b. repairLink bs b s (simTo bs s b)) (x # bests))"
    unfolding eq using r(1) by simp
  have bnd: "\<forall>b\<in>set (x # bests). b < ?n" using r(4) xn by simp
  show ?case
    by (intro exI[of _ p'] exI[of _ "x # bests"] conjI) (fact res r(2) r(3) bnd m)+
qed

subsection \<open>The state after the repair loop\<close>

lemma nodeIdToIndex_lt: "nodeIdToIndex bs k = Some i \<Longrightarrow> i < length bs"
  using nodeIdToIndex_range by blast

lemma unionLinks_pruned:
  assumes R: "symp R" "transp R" "\<forall>x<length bs. R x x"
    and RL: "\<forall>l\<in>set (prunedLinks bs). \<forall>a b. nodeIdToIndex bs (source l) = Some a
               \<and> nodeIdToIndex bs (target l) = Some b \<longrightarrow> R a b"
  shows "\<exists>p0. unionLinks (nodeIdToIndex bs) (prunedLinks bs) [0..<length bs] = Some p0
     \<and> uf_inv p0 \<and> length p0 = length bs
     \<and> (\<forall>l\<in>set (prunedLinks bs). \<forall>a b. nodeIdToIndex bs (source l) = Some a
            \<and> nodeIdToIndex bs (target l) = Some b \<longrightarrow> rep p0 a = rep p0 b)
     \<and> (\<forall>x<length bs. \<forall>y<length bs. rep p0 x = rep p0 y \<longrightarrow> R x y)"
proof -
  have i: "\<forall>x<length bs. \<forall>y<length bs. rep [0..<length bs] x = rep [0..<length bs] y
             \<longrightarrow> R x y"
    using R(3) by (simp add: rep_init)
  have idx: "\<forall>k i. nodeIdToIndex bs k = Some i \<longrightarrow> i < length bs"
    using nodeIdToIndex_lt by blast
  have len: "length [0..<length bs] = length bs" by simp
  from unionLinks_spec[of "nodeIdToIndex bs" "length bs" R "[0..<length bs]" "prunedLinks bs",
      OF idx R(1,2) uf_inv_init len i RL]
  show ?thesis by blast
qed

lemma repaired_total:
  assumes "bs \<noteq> []"
  shows "\<exists>p' bests. repaired bs h
           = Some (p', prunedLinks bs
                       @ map (\<lambda>b. repairLink bs b (searchedIdx bs h)
                                     (simTo bs (searchedIdx bs h) b)) bests)
         \<and> (\<forall>b\<in>set bests. b < length bs)"
proof -
  let ?n = "length bs" and ?s = "searchedIdx bs h"
  have s: "?s < ?n" using assms by (rule searchedIdx_lt)
  from unionLinks_pruned[of "\<lambda>_ _. True" bs] obtain p0 where
    p0: "unionLinks (nodeIdToIndex bs) (prunedLinks bs) [0..<?n] = Some p0"
        "uf_inv p0" "length p0 = ?n"
    by (auto simp: symp_def transp_def)
  from find_uf_rep[OF p0(2), of ?s] s p0(3) obtain p1 where
    p1: "find_uf p0 ?s = Some (rep p0 ?s, p1)" "uf_inv p1" "length p1 = ?n"
    by auto
  have r: "\<forall>x\<in>set [0..<?n]. x < ?n" by simp
  from collectComponents_spec[OF p1(2,3) r, of "rep p0 ?s" "[]"] obtain comps p2 where
    p2: "collectComponents (rep p0 ?s) [0..<?n] p1 [] = Some (comps, p2)"
        "uf_inv p2" "length p2 = ?n"
    by blast
  from repairLoop_total[OF p2(2,3) s, of comps "prunedLinks bs"] obtain p' bests where
    r: "repairLoop bs ?s comps (p2, prunedLinks bs)
          = Some (p', prunedLinks bs @ map (\<lambda>b. repairLink bs b ?s (simTo bs ?s b)) bests)"
       "\<forall>b\<in>set bests. b < ?n"
    by blast
  have "repaired bs h
        = Some (p', prunedLinks bs @ map (\<lambda>b. repairLink bs b ?s (simTo bs ?s b)) bests)"
    using p0(1) p1(1) p2(1) r(1) by (simp add: repaired_def)
  with r(2) show ?thesis by blast
qed

lemma repaired_spec:
  assumes ne: "bs \<noteq> []"
    and sim: "\<forall>x<length bs. - 1 < simTo bs (searchedIdx bs h) x"
    and p0: "unionLinks (nodeIdToIndex bs) (prunedLinks bs) [0..<length bs] = Some p0"
        "uf_inv p0" "length p0 = length bs"
  shows "\<exists>p' bests. repaired bs h
           = Some (p', prunedLinks bs
                       @ map (\<lambda>b. repairLink bs b (searchedIdx bs h)
                                     (simTo bs (searchedIdx bs h) b)) bests)
         \<and> (\<forall>b\<in>set bests. b < length bs)
         \<and> distinct (map (rep p0) bests)
         \<and> set (map (rep p0) bests)
             = rep p0 ` {..<length bs} - {rep p0 (searchedIdx bs h)}"
proof -
  let ?n = "length bs" and ?s = "searchedIdx bs h"
  have s: "?s < ?n" using ne by (rule searchedIdx_lt)
  from find_uf_rep[OF p0(2), of ?s] s p0(3) obtain p1 where
    p1: "find_uf p0 ?s = Some (rep p0 ?s, p1)" "uf_inv p1" "length p1 = ?n"
        "\<forall>y<?n. rep p1 y = rep p0 y"
    by auto
  have r: "\<forall>x\<in>set [0..<?n]. x < ?n" by simp
  from collectComponents_spec[OF p1(2,3) r, of "rep p0 ?s" "[]"] obtain comps p2 where
    p2: "collectComponents (rep p0 ?s) [0..<?n] p1 [] = Some (comps, p2)"
        "uf_inv p2" "length p2 = ?n" "\<forall>y<?n. rep p2 y = rep p1 y"
        "set comps = set [] \<union> (rep p1 ` set [0..<?n] - {rep p0 ?s})"
        "distinct comps"
    by auto
  have rep2: "\<forall>y<?n. rep p2 y = rep p0 y" using p1(4) p2(4) by simp
  have img: "rep p1 ` set [0..<?n] = rep p0 ` {..<?n}"
    using p1(4) by (auto simp: image_iff)
  have sc: "set comps = rep p0 ` {..<?n} - {rep p0 ?s}" using p2(5) img by simp
  have ns: "rep p2 ?s \<notin> set comps" using sc rep2 s by simp
  have ex: "\<forall>c\<in>set comps. \<exists>x<?n. rep p2 x = c"
  proof
    fix c assume "c \<in> set comps"
    with sc obtain x where "x < ?n" "rep p0 x = c" by auto
    with rep2 show "\<exists>x<?n. rep p2 x = c" by auto
  qed
  from repairLoop_spec[OF s sim p2(2,3,6) ns ex, of "prunedLinks bs"] obtain p' bests where
    r: "repairLoop bs ?s comps (p2, prunedLinks bs)
          = Some (p', prunedLinks bs @ map (\<lambda>b. repairLink bs b ?s (simTo bs ?s b)) bests)"
       "\<forall>b\<in>set bests. b < ?n" "map (rep p2) bests = comps"
    by blast
  have res: "repaired bs h
        = Some (p', prunedLinks bs @ map (\<lambda>b. repairLink bs b ?s (simTo bs ?s b)) bests)"
    using p0(1) p1(1) p2(1) r(1) by (simp add: repaired_def)
  have "map (rep p0) bests = map (rep p2) bests" using rep2 r(2) by simp
  then have m: "map (rep p0) bests = comps" using r(3) by simp
  have d: "distinct (map (rep p0) bests)" using m p2(6) by simp
  have e: "set (map (rep p0) bests) = rep p0 ` {..<?n} - {rep p0 ?s}"
    using m sc by simp
  show ?thesis
    by (intro exI[of _ p'] exI[of _ bests] conjI) (fact res r(2) d e)+
qed

subsection \<open>Similarity of valid vectors\<close>

lemma validEntities_sim:
  assumes "validEntities bs" "s < length bs" "x < length bs"
  shows "- 1 < simTo bs s x"
proof -
  have v: "validScores (sentimentScores (bs ! k))" if "k < length bs" for k
    using assms(1) that by (simp add: validEntities_def list_all_length)
  have "0 \<le> simTo bs s x"
    unfolding simTo_def using v[OF assms(2)] v[OF assms(3)]
    by (intro calculateSimilarity_nonneg) (simp_all add: validScores_def)
  then show ?thesis by simp
qed

subsection \<open>Links and reachability\<close>

lemma prunedLinks_cases:
  assumes "l \<in> set (prunedLinks bs)"
  shows "\<exists>i j. i < j \<and> j < length bs \<and> source l = id_node (bs ! i)
           \<and> target l = id_node (bs ! j)
           \<and> similarityWeight l
               = calculateSimilarity (sentimentScores (bs ! i)) (sentimentScores (bs ! j))"
proof -
  from assms obtain pr where pr: "pr \<in> set (prunedPairs bs)" "l = pairLink bs pr"
    by (auto simp: prunedLinks_def)
  with prunedPairs_subset have "pr \<in> set (allPairs bs)" by blast
  from allPairs_range[OF this] allPairs_sim[OF this] pr(2) show ?thesis
    by (auto simp: pairLink_def)
qed

lemma reachable_refl: "(u, u) \<in> reachable ls"
  by (simp add: reachable_def)

lemma reachable_sym: "(u, v) \<in> reachable ls \<Longrightarrow> (v, u) \<in> reachable ls"
proof -
  have "sym ((linkEdges ls \<union> (linkEdges ls)\<inverse>)\<^sup>*)"
    by (rule sym_rtrancl) (auto simp: sym_def)
  then show "(u, v) \<in> reachable ls \<Longrightarrow> (v, u) \<in> reachable ls"
    unfolding reachable_def by (rule symD)
qed

lemma reachable_trans:
  "(u, v) \<in> reachable ls \<Longrightarrow> (v, w) \<in> reachable ls \<Longrightarrow> (u, w) \<in> reachable ls"
  unfolding reachable_def by (rule rtrancl_trans)

lemma reachable_link: "l \<in> set ls \<Longrightarrow> (source l, target l) \<in> reachable ls"
  unfolding reachable_def linkEdges_def by (rule r_into_rtrancl) simp

lemma reachable_symp_transp:
  "symp (\<lambda>x y. (id_node (bs ! x), id_node (bs ! y)) \<in> reachable ls)"
  "transp (\<lambda>x y. (id_node (bs ! x), id_node (bs ! y)) \<in> reachable ls)"
  by (auto simp: symp_def transp_def intro: reachable_sym reachable_trans)

lemma pruned_reachable:
  assumes "set (prunedLinks bs) \<subseteq> set ls"
  shows "\<forall>l\<in>set (prunedLinks bs). \<forall>a b. nodeIdToIndex bs (source l) = Some a
            \<and> nodeIdToIndex bs (target l) = Some b
          \<longrightarrow> (id_node (bs ! a), id_node (bs ! b)) \<in> reachable ls"
proof (intro ballI allI impI)
  fix l a b
  assume l: "l \<in> set (prunedLinks bs)"
    and ab: "nodeIdToIndex bs (source l) = Some a \<and> nodeIdToIndex bs (target l) = Some b"
  from ab have "id_node (bs ! a) = source l" "id_node (bs ! b) = target l"
    using nodeIdToIndex_range by blast+
  moreover have "(source l, target l) \<in> reachable ls"
    using l assms by (intro reachable_link) blast
  ultimately show "(id_node (bs ! a), id_node (bs ! b)) \<in> reachable ls" by simp
qed

subsection \<open>The graph that the build returns\<close>

lemma bookGraphData_total_links:
  "\<exists>g. bookGraphData bs h = Some g \<and> nodes g = bs
      \<and> (\<forall>l\<in>set (links g). \<exists>i<length bs. \<exists>j<length bs.
            source l = id_node (bs ! i) \<and> target l = id_node (bs ! j)
            \<and> similarityWeight l
                = calculateSimilarity (sentimentScores (bs ! i)) (sentimentScores (bs ! j)))"
proof (cases "bs = []")
  case True
  then show ?thesis by (simp add: bookGraphData_def)
next
  case False
  let ?s = "searchedIdx bs h"
  have s: "?s < length bs" using False by (rule searchedIdx_lt)
  from repaired_total[OF False, of h] obtain p' bests where
    r: "repaired bs h
          = Some (p', prunedLinks bs
                      @ map (\<lambda>b. repairLink bs b ?s (simTo bs ?s b)) bests)"
       "\<forall>b\<in>set bests. b < length bs"
    by blast
  define g where
    "g = \<lparr>nodes = bs,
          links = prunedLinks bs @ map (\<lambda>b. repairLink bs b ?s (simTo bs ?s b)) bests\<rparr>"
  have res: "bookGraphData bs h = Some g"
    using False r(1) by (simp add: bookGraphData_def g_def)
  have "\<exists>i<length bs. \<exists>j<length bs.
            source l = id_node (bs ! i) \<and> target l = id_node (bs ! j)
            \<and> similarityWeight l
                = calculateSimilarity (sentimentScores (bs ! i)) (sentimentScores (bs ! j))"
    if "l \<in> set (links g)" for l
  proof -
    from that consider (pruned) "l \<in> set (prunedLinks bs)"
      | (repair) b where "b \<in> set bests" "l = repairLink bs b ?s (simTo bs ?s b)"
      by (auto simp: g_def)
    then show ?thesis
    proof cases
      case pruned
      from prunedLinks_cases[OF this] show ?thesis
        by (meson less_trans)
    next
      case repair
      with r(2) have "b < length bs" by blast
      with s repair(2) show ?thesis
        by (auto simp: repairLink_def simTo_def)
    qed
  qed
  with res show ?thesis by (auto simp: g_def)
qed

lemma bookGraphData_repaired:
  assumes ne: "bs \<noteq> []"
    and sim: "\<forall>x<length bs. - 1 < simTo bs (searchedIdx bs h) x"
  shows "\<exists>g p0 bests.
      bookGraphData bs h = Some g \<and> nodes g = bs
      \<and> links g = prunedLinks bs
                  @ map (\<lambda>b. repairLink bs b (searchedIdx bs h)
                                (simTo bs (searchedIdx bs h) b)) bests
      \<and> unionLinks (nodeIdToIndex bs) (prunedLinks bs) [0..<length bs] = Some p0
      \<and> uf_inv p0 \<and> length p0 = length bs
      \<and> (\<forall>b\<in>set bests. b < length bs)
      \<and> distinct (map (rep p0) bests)
      \<and> set (map (rep p0) bests)
          = rep p0 ` {..<length bs} - {rep p0 (searchedIdx bs h)}"
proof -
  let ?s = "searchedIdx bs h"
  from unionLinks_pruned[of "\<lambda>_ _. True" bs] obtain p0 where
    p0: "unionLinks (nodeIdToIndex bs) (prunedLinks bs) [0..<length bs] = Some p0"
        "uf_inv p0" "length p0 = length bs"
    by (auto simp: symp_def transp_def)
  from repaired_spec[OF ne sim p0] obtain p' bests where
    r: "repaired bs h
          = Some (p', prunedLinks bs
                      @ map (\<lambda>b. repairLink bs b ?s (simTo bs ?s b)) bests)"
       "\<forall>b\<in>set bests. b < length bs"
       "distinct (map (rep p0) bests)"
       "set (map (rep p0) bests) = rep p0 ` {..<length bs} - {rep p0 ?s}"
    by blast
  define g where
    "g = \<lparr>nodes = bs,
          links = prunedLinks bs @ map (\<lambda>b. repairLink bs b ?s (simTo bs ?s b)) bests\<rparr>"
  have res: "bookGraphData bs h = Some g"
    using ne r(1) by (simp add: bookGraphData_def g_def)
  have n: "nodes g = bs" by (simp add: g_def)
  have l: "links g = prunedLinks bs @ map (\<lambda>b. repairLink bs b ?s (simTo bs ?s b)) bests"
    by (simp add: g_def)
  show ?thesis
    by (intro exI[of _ g] exI[of _ p0] exI[of _ bests] conjI)
       (fact res n l p0(1) p0(2) p0(3) r(2) r(3) r(4))+
qed

lemma bookGraphData_reachable:
  assumes ne: "bs \<noteq> []"
    and sim: "\<forall>x<length bs. - 1 < simTo bs (searchedIdx bs h) x"
  shows "\<exists>g. bookGraphData bs h = Some g \<and> nodes g = bs
      \<and> (\<forall>x<length bs.
            (id_node (bs ! x), id_node (bs ! searchedIdx bs h)) \<in> reachable (links g))"
proof -
  let ?s = "searchedIdx bs h"
  have s: "?s < length bs" using ne by (rule searchedIdx_lt)
  from bookGraphData_repaired[OF ne sim] obtain g p0 bests where
    g: "bookGraphData bs h = Some g" "nodes g = bs"
       "links g = prunedLinks bs @ map (\<lambda>b. repairLink bs b ?s (simTo bs ?s b)) bests"
       "unionLinks (nodeIdToIndex bs) (prunedLinks bs) [0..<length bs] = Some p0"
       "\<forall>b\<in>set bests. b < length bs"
       "set (map (rep p0) bests) = rep p0 ` {..<length bs} - {rep p0 ?s}"
    by blast
  define R where "R = (\<lambda>x y. (id_node (bs ! x), id_node (bs ! y)) \<in> reachable (links g))"
  have sub: "set (prunedLinks bs) \<subseteq> set (links g)" using g(3) by simp
  have "\<exists>p0. unionLinks (nodeIdToIndex bs) (prunedLinks bs) [0..<length bs] = Some p0
     \<and> uf_inv p0 \<and> length p0 = length bs
     \<and> (\<forall>l\<in>set (prunedLinks bs). \<forall>a b. nodeIdToIndex bs (source l) = Some a
            \<and> nodeIdToIndex bs (target l) = Some b \<longrightarrow> rep p0 a = rep p0 b)
     \<and> (\<forall>x<length bs. \<forall>y<length bs. rep p0 x = rep p0 y \<longrightarrow> R x y)"
    unfolding R_def
    by (rule unionLinks_pruned)
       (simp_all add: reachable_symp_transp reachable_refl pruned_reachable[OF sub])
  with g(4) have same: "\<forall>x<length bs. \<forall>y<length bs. rep p0 x = rep p0 y \<longrightarrow> R x y"
    by auto
  have "R x ?s" if x: "x < length bs" for x
  proof (cases "rep p0 x = rep p0 ?s")
    case True
    with same x s show ?thesis by blast
  next
    case False
    with x have "rep p0 x \<in> set (map (rep p0) bests)" unfolding g(6) by simp
    then obtain b where b: "b \<in> set bests" "rep p0 b = rep p0 x" by auto
    with g(5) have bn: "b < length bs" by blast
    have "R x b" using same x bn b(2) by simp
    moreover have "R b ?s"
    proof -
      have "repairLink bs b ?s (simTo bs ?s b) \<in> set (links g)"
        using b(1) g(3) by simp
      from reachable_link[OF this] show ?thesis
        by (simp add: R_def repairLink_def)
    qed
    ultimately show ?thesis unfolding R_def by (rule reachable_trans)
  qed
  with g(1,2) show ?thesis unfolding R_def by blast
qed

lemma repairLinks_eq:
  "links g = prunedLinks bs @ rs \<Longrightarrow> repairLinks bs g = rs"
  by (simp add: repairLinks_def)

subsection \<open>Counting components\<close>

lemma card_quotient_kernel:
  assumes "finite A" and "r = {(x, y). x \<in> A \<and> y \<in> A \<and> f x = f y}"
  shows "card (A // r) = card (f ` A)"
proof -
  define g where "g = (\<lambda>v. {y \<in> A. f y = v})"
  have cls: "r `` {x} = g (f x)" if "x \<in> A" for x
    using that by (auto simp: assms(2) g_def)
  have "A // r = (\<lambda>x. r `` {x}) ` A"
    by (auto simp: quotient_def)
  also have "\<dots> = (\<lambda>x. g (f x)) ` A" using cls by (auto simp: image_iff)
  also have "\<dots> = g ` (f ` A)" by (simp add: image_image)
  finally have q: "A // r = g ` (f ` A)" .
  have "inj_on g (f ` A)"
  proof (rule inj_onI)
    fix v w assume v: "v \<in> f ` A" and w: "w \<in> f ` A" and e: "g v = g w"
    from v obtain x where x: "x \<in> A" "v = f x" by auto
    then have "x \<in> g v" by (simp add: g_def)
    with e have "x \<in> g w" by simp
    then show "v = w" using x by (simp add: g_def)
  qed
  then show ?thesis unfolding q by (rule card_image)
qed

lemma components_card:
  assumes d: "distinct (map id_node bs)"
    and p0: "unionLinks (nodeIdToIndex bs) (prunedLinks bs) [0..<length bs] = Some p0"
  shows "card (components bs (prunedLinks bs)) = card (rep p0 ` {..<length bs})"
proof -
  let ?n = "length bs" and ?V = "id_node ` set bs" and ?L = "prunedLinks bs"
  define ix where "ix = (\<lambda>u. the (nodeIdToIndex bs u))"
  define f where "f = (\<lambda>u. rep p0 (ix u))"
  have ix: "ix (id_node (bs ! x)) = x" if "x < ?n" for x
    using nodeIdToIndex_distinct[OF d that] by (simp add: ix_def)
  have V: "?V = (\<lambda>x. id_node (bs ! x)) ` {..<?n}"
  proof -
    have "set bs = (\<lambda>x. bs ! x) ` {..<?n}" by (auto simp: set_conv_nth)
    then show ?thesis by (simp add: image_image)
  qed
  define R where "R = (\<lambda>x y. (id_node (bs ! x), id_node (bs ! y)) \<in> reachable ?L)"
  have "\<exists>p0. unionLinks (nodeIdToIndex bs) ?L [0..<?n] = Some p0
     \<and> uf_inv p0 \<and> length p0 = ?n
     \<and> (\<forall>l\<in>set ?L. \<forall>a b. nodeIdToIndex bs (source l) = Some a
            \<and> nodeIdToIndex bs (target l) = Some b \<longrightarrow> rep p0 a = rep p0 b)
     \<and> (\<forall>x<?n. \<forall>y<?n. rep p0 x = rep p0 y \<longrightarrow> R x y)"
    unfolding R_def
    by (rule unionLinks_pruned)
       (simp_all add: reachable_symp_transp reachable_refl pruned_reachable)
  with p0 have B: "\<forall>l\<in>set ?L. \<forall>a b. nodeIdToIndex bs (source l) = Some a
            \<and> nodeIdToIndex bs (target l) = Some b \<longrightarrow> rep p0 a = rep p0 b"
    and C: "\<forall>x<?n. \<forall>y<?n. rep p0 x = rep p0 y \<longrightarrow> R x y"
    by auto
  have edge: "u \<in> ?V \<and> v \<in> ?V \<and> f u = f v" if "(u, v) \<in> linkEdges ?L" for u v
  proof -
    from that obtain l where l: "l \<in> set ?L" "u = source l" "v = target l"
      by (auto simp: linkEdges_def)
    from prunedLinks_cases[OF l(1)] obtain i j where
      ij: "i < j" "j < ?n" "source l = id_node (bs ! i)" "target l = id_node (bs ! j)"
      by blast
    then have i: "i < ?n" by simp
    have "nodeIdToIndex bs (source l) = Some i" "nodeIdToIndex bs (target l) = Some j"
      using nodeIdToIndex_distinct[OF d] i ij by simp_all
    with B l(1) have "rep p0 i = rep p0 j" by blast
    then have "f u = f v" using l ij i by (simp add: f_def ix)
    moreover have "u \<in> ?V" "v \<in> ?V" using l ij i by (auto simp: V)
    ultimately show ?thesis by blast
  qed
  have fwd: "v \<in> ?V \<and> f u = f v" if "(u, v) \<in> reachable ?L" "u \<in> ?V" for u v
    using that unfolding reachable_def
  proof (induction rule: rtrancl_induct)
    case base
    then show ?case by simp
  next
    case (step v w)
    from step.hyps(2) edge[of v w] edge[of w v] have "w \<in> ?V \<and> f v = f w"
      by auto
    with step.IH[OF step.prems] show ?case by simp
  qed
  have bwd: "(u, v) \<in> reachable ?L" if "u \<in> ?V" "v \<in> ?V" "f u = f v" for u v
  proof -
    from that(1,2) obtain x y where xy: "x < ?n" "u = id_node (bs ! x)" "y < ?n"
        "v = id_node (bs ! y)"
      by (auto simp: V)
    with that(3) have "rep p0 x = rep p0 y" by (simp add: f_def ix)
    with C xy show ?thesis by (simp add: R_def)
  qed
  have rel: "reachable ?L \<inter> ?V \<times> ?V = {(u, v). u \<in> ?V \<and> v \<in> ?V \<and> f u = f v}"
    using fwd bwd by auto
  have "card (components bs ?L) = card (f ` ?V)"
    unfolding components_def by (rule card_quotient_kernel[OF _ rel]) simp
  also have "f ` ?V = rep p0 ` {..<?n}"
    unfolding V by (auto simp: f_def ix image_iff)
  finally show ?thesis .
qed

lemma bookGraphData_repair_count:
  assumes ne: "bs \<noteq> []" and v: "validEntities bs"
  shows "\<exists>g bests. bookGraphData bs h = Some g \<and> nodes g = bs
      \<and> links g = prunedLinks bs @ repairLinks bs g
      \<and> repairLinks bs g
          = map (\<lambda>b. repairLink bs b (searchedIdx bs h) (simTo bs (searchedIdx bs h) b)) bests
      \<and> distinct bests \<and> (\<forall>b\<in>set bests. b < length bs) \<and> searchedIdx bs h \<notin> set bests
      \<and> length bests + 1 = card (components bs (prunedLinks bs))"
proof -
  let ?s = "searchedIdx bs h" and ?n = "length bs"
  have s: "?s < ?n" using ne by (rule searchedIdx_lt)
  have sim: "\<forall>x<?n. - 1 < simTo bs ?s x"
    using validEntities_sim[OF v s] by blast
  from bookGraphData_repaired[OF ne sim] obtain g p0 bests where
    g: "bookGraphData bs h = Some g" "nodes g = bs"
       "links g = prunedLinks bs @ map (\<lambda>b. repairLink bs b ?s (simTo bs ?s b)) bests"
       "unionLinks (nodeIdToIndex bs) (prunedLinks bs) [0..<?n] = Some p0"
       "\<forall>b\<in>set bests. b < ?n"
       "distinct (map (rep p0) bests)"
       "set (map (rep p0) bests) = rep p0 ` {..<?n} - {rep p0 ?s}"
    by blast
  have rl: "repairLinks bs g = map (\<lambda>b. repairLink bs b ?s (simTo bs ?s b)) bests"
    using g(3) by (rule repairLinks_eq)
  have l: "links g = prunedLinks bs @ repairLinks bs g" using g(3) rl by simp
  have db: "distinct bests" using g(6) by (simp add: distinct_map)
  have ns: "?s \<notin> set bests"
  proof
    assume "?s \<in> set bests"
    then have "rep p0 ?s \<in> set (map (rep p0) bests)" by simp
    then show False unfolding g(7) by simp
  qed
  have d: "distinct (map id_node bs)" using v by (simp add: validEntities_def)
  have "length bests = card (set (map (rep p0) bests))"
    using distinct_card[OF g(6)] by simp
  also have "\<dots> = card (rep p0 ` {..<?n} - {rep p0 ?s})" unfolding g(7) ..
  also have "\<dots> = card (rep p0 ` {..<?n}) - 1"
    using s by (subst card_Diff_singleton) auto
  finally have "length bests = card (rep p0 ` {..<?n}) - 1" .
  moreover have "0 < card (rep p0 ` {..<?n})"
    using s by (auto simp: card_gt_0_iff)
  ultimately have c: "length bests + 1 = card (components bs (prunedLinks bs))"
    using components_card[OF d g(4)] by simp
  show ?thesis
    by (intro exI[of _ g] exI[of _ bests] conjI) (fact g(1) g(2) l rl db g(5) ns c)+
qed

subsection \<open>Evaluating the build on the examples\<close>

lemma sim_examples:
  "calculateSimilarity (scores 2 0 0 0 0) (scores 1 0 0 0 0) = 1"
  "calculateSimilarity (scores 1 0 0 0 0) (scores 1 0 0 0 0) = 1"
  "calculateSimilarity (scores 0 1 0 0 0) (scores 0 1 0 0 0) = 1"
  "calculateSimilarity (scores 1 0 0 0 0) (scores 0 1 0 0 0) = 0"
  "calculateSimilarity (scores 1 0 0 0 0) (scores 0 0 1 0 0) = 0"
  "calculateSimilarity (scores 0 1 0 0 0) (scores 0 0 1 0 0) = 0"
  by (simp_all add: calculateSimilarity_def dotProduct_vec magnitude_vec scores_def Let_def)

lemma upt_7:
  "[0..<7] = [0, 1, 2, 3, 4, 5, 6]" "[1..<7] = [1, 2, 3, 4, 5, 6]" "[2..<7] = [2, 3, 4, 5, 6]"
  "[3..<7] = [3, 4, 5, 6]" "[4..<7] = [4, 5, 6]" "[5..<7] = [5, 6]" "[6..<7] = [6]"
  "[7..<7] = []"
  by (simp_all add: upt_rec)

lemma allPairs_cluster:
  "allPairs clusterBooks =
     [\<lparr>pair_i = 0, pair_j = 1, pair_sim = 1\<rparr>, \<lparr>pair_i = 0, pair_j = 2, pair_sim = 1\<rparr>,
      \<lparr>pair_i = 0, pair_j = 3, pair_sim = 1\<rparr>, \<lparr>pair_i = 0, pair_j = 4, pair_sim = 0\<rparr>,
      \<lparr>pair_i = 0, pair_j = 5, pair_sim = 0\<rparr>, \<lparr>pair_i = 0, pair_j = 6, pair_sim = 0\<rparr>,
      \<lparr>pair_i = 1, pair_j = 2, pair_sim = 1\<rparr>, \<lparr>pair_i = 1, pair_j = 3, pair_sim = 1\<rparr>,
      \<lparr>pair_i = 1, pair_j = 4, pair_sim = 0\<rparr>, \<lparr>pair_i = 1, pair_j = 5, pair_sim = 0\<rparr>,
      \<lparr>pair_i = 1, pair_j = 6, pair_sim = 0\<rparr>, \<lparr>pair_i = 2, pair_j = 3, pair_sim = 1\<rparr>,
      \<lparr>pair_i = 2, pair_j = 4, pair_sim = 0\<rparr>, \<lparr>pair_i = 2, pair_j = 5, pair_sim = 0\<rparr>,
      \<lparr>pair_i = 2, pair_j = 6, pair_sim = 0\<rparr>, \<lparr>pair_i = 3, pair_j = 4, pair_sim = 0\<rparr>,
      \<lparr>pair_i = 3, pair_j = 5, pair_sim = 0\<rparr>, \<lparr>pair_i = 3, pair_j = 6, pair_sim = 0\<rparr>,
      \<lparr>pair_i = 4, pair_j = 5, pair_sim = 1\<rparr>, \<lparr>pair_i = 4, pair_j = 6, pair_sim = 0\<rparr>,
      \<lparr>pair_i = 5, pair_j = 6, pair_sim = 0\<rparr>]"
  by (simp add: allPairs_def clusterBooks_def upt_7 book_def sim_examples)

lemma sortedPairs_cluster:
  "sortedPairs clusterBooks =
     [\<lparr>pair_i = 0, pair_j = 1, pair_sim = 1\<rparr>, \<lparr>pair_i = 0, pair_j = 2, pair_sim = 1\<rparr>,
      \<lparr>pair_i = 0, pair_j = 3, pair_sim = 1\<rparr>, \<lparr>pair_i = 1, pair_j = 2, pair_sim = 1\<rparr>,
      \<lparr>pair_i = 1, pair_j = 3, pair_sim = 1\<rparr>, \<lparr>pair_i = 2, pair_j = 3, pair_sim = 1\<rparr>,
      \<lparr>pair_i = 4, pair_j = 5, pair_sim = 1\<rparr>,
      \<lparr>pair_i = 0, pair_j = 4, pair_sim = 0\<rparr>,
      \<lparr>pair_i = 0, pair_j = 5, pair_sim = 0\<rparr>, \<lparr>pair_i = 0, pair_j = 6, pair_sim = 0\<rparr>,
      \<lparr>pair_i = 1, pair_j = 4, pair_sim = 0\<rparr>, \<lparr>pair_i = 1, pair_j = 5, pair_sim = 0\<rparr>,
      \<lparr>pair_i = 1, pair_j = 6, pair_sim = 0\<rparr>,
      \<lparr>pair_i = 2, pair_j = 4, pair_sim = 0\<rparr>, \<lparr>pair_i = 2, pair_j = 5, pair_sim = 0\<rparr>,
      \<lparr>pair_i = 2, pair_j = 6, pair_sim = 0\<rparr>, \<lparr>pair_i = 3, pair_j = 4, pair_sim = 0\<rparr>,
      \<lparr>pair_i = 3, pair_j = 5, pair_sim = 0\<rparr>, \<lparr>pair_i = 3, pair_j = 6, pair_sim = 0\<rparr>,
      \<lparr>pair_i = 4, pair_j = 6, pair_sim = 0\<rparr>,
      \<lparr>pair_i = 5, pair_j = 6, pair_sim = 0\<rparr>]"
  by (simp add: sortedPairs_def allPairs_cluster sort_js_def)

lemma target_cluster: "targetTotalConnections clusterBooks = 10"
  by (simp add: targetTotalConnections_def clusterBooks_def)

lemma selectedPairs_cluster:
  "selectedPairs clusterBooks =
     [\<lparr>pair_i = 0, pair_j = 1, pair_sim = 1\<rparr>, \<lparr>pair_i = 0, pair_j = 2, pair_sim = 1\<rparr>,
      \<lparr>pair_i = 0, pair_j = 3, pair_sim = 1\<rparr>, \<lparr>pair_i = 1, pair_j = 2, pair_sim = 1\<rparr>,
      \<lparr>pair_i = 1, pair_j = 3, pair_sim = 1\<rparr>, \<lparr>pair_i = 2, pair_j = 3, pair_sim = 1\<rparr>,
      \<lparr>pair_i = 4, pair_j = 5, pair_sim = 1\<rparr>,
      \<lparr>pair_i = 4, pair_j = 6, pair_sim = 0\<rparr>,
      \<lparr>pair_i = 5, pair_j = 6, pair_sim = 0\<rparr>]"
  by (simp add: selectedPairs_def sortedPairs_cluster target_cluster getCount_def
      maxConnectionsPerNode_def)

lemma prunedPairs_cluster:
  "prunedPairs clusterBooks =
     [\<lparr>pair_i = 0, pair_j = 1, pair_sim = 1\<rparr>, \<lparr>pair_i = 0, pair_j = 2, pair_sim = 1\<rparr>,
      \<lparr>pair_i = 0, pair_j = 3, pair_sim = 1\<rparr>, \<lparr>pair_i = 1, pair_j = 2, pair_sim = 1\<rparr>,
      \<lparr>pair_i = 1, pair_j = 3, pair_sim = 1\<rparr>, \<lparr>pair_i = 2, pair_j = 3, pair_sim = 1\<rparr>,
      \<lparr>pair_i = 4, pair_j = 5, pair_sim = 1\<rparr>]"
  by (simp add: prunedPairs_def selectedPairs_cluster edgesToKeep_def sort_js_def)


lemma pruned_index_pair:
  assumes d: "distinct (map id_node bs)" and l: "l \<in> set (prunedLinks bs)"
    and a: "nodeIdToIndex bs (source l) = Some a" and b: "nodeIdToIndex bs (target l) = Some b"
  shows "\<exists>pr\<in>set (prunedPairs bs). a = pair_i pr \<and> b = pair_j pr"
proof -
  from l obtain pr where pr: "pr \<in> set (prunedPairs bs)" "l = pairLink bs pr"
    by (auto simp: prunedLinks_def)
  with prunedPairs_subset have "pr \<in> set (allPairs bs)" by blast
  from allPairs_range[OF this] have r: "pair_i pr < length bs" "pair_j pr < length bs"
    by auto
  have "nodeIdToIndex bs (source l) = Some (pair_i pr)"
    "nodeIdToIndex bs (target l) = Some (pair_j pr)"
    using nodeIdToIndex_distinct[OF d] r pr(2) by (simp_all add: pairLink_def)
  with a b pr(1) show ?thesis by auto
qed

lemma touching_target: "\<forall>l\<in>set ls. target l = v \<Longrightarrow> touching v ls = ls"
  by (simp add: touching_def)

lemma valid_cluster: "validEntities clusterBooks"
  by (simp add: validEntities_def validScores_def clusterBooks_def book_def scores_def)

lemma cluster_repairs:
  "\<exists>g. bookGraphData clusterBooks None = Some g
      \<and> 2 \<le> length (touching (id_node (clusterBooks ! searchedIdx clusterBooks None))
                        (repairLinks clusterBooks g))"
proof -
  let ?bs = clusterBooks
  have n: "length ?bs = 7" by (simp add: clusterBooks_def)
  have ne: "?bs \<noteq> []" by (simp add: clusterBooks_def)
  have d: "distinct (map id_node ?bs)" using valid_cluster by (simp add: validEntities_def)
  define col where "col = (\<lambda>x. [0, 0, 0, 0, 1, 1, 2 :: nat] ! x)"
  define R where "R = (\<lambda>x y. col x = col y)"
  have RL: "\<forall>l\<in>set (prunedLinks ?bs). \<forall>a b. nodeIdToIndex ?bs (source l) = Some a
               \<and> nodeIdToIndex ?bs (target l) = Some b \<longrightarrow> R a b"
  proof (intro ballI allI impI)
    fix l a b
    assume l: "l \<in> set (prunedLinks ?bs)"
      and ab: "nodeIdToIndex ?bs (source l) = Some a \<and> nodeIdToIndex ?bs (target l) = Some b"
    from pruned_index_pair[OF d l] ab obtain pr where
      "pr \<in> set (prunedPairs ?bs)" "a = pair_i pr" "b = pair_j pr"
      by blast
    then show "R a b" unfolding prunedPairs_cluster R_def col_def by auto
  qed
  have "\<exists>p0. unionLinks (nodeIdToIndex ?bs) (prunedLinks ?bs) [0..<length ?bs] = Some p0
     \<and> uf_inv p0 \<and> length p0 = length ?bs
     \<and> (\<forall>l\<in>set (prunedLinks ?bs). \<forall>a b. nodeIdToIndex ?bs (source l) = Some a
            \<and> nodeIdToIndex ?bs (target l) = Some b \<longrightarrow> rep p0 a = rep p0 b)
     \<and> (\<forall>x<length ?bs. \<forall>y<length ?bs. rep p0 x = rep p0 y \<longrightarrow> R x y)"
    by (rule unionLinks_pruned[OF _ _ _ RL]) (simp_all add: R_def symp_def transp_def)
  then obtain p0 where
    p0: "unionLinks (nodeIdToIndex ?bs) (prunedLinks ?bs) [0..<length ?bs] = Some p0"
    and C: "\<forall>x<length ?bs. \<forall>y<length ?bs. rep p0 x = rep p0 y \<longrightarrow> R x y"
    by blast
  have nR: "\<not> R 0 4" "\<not> R 0 6" "\<not> R 4 6" by (simp_all add: R_def col_def)
  have ne04: "rep p0 0 \<noteq> rep p0 4" using C[rule_format, of 0 4] n nR(1) by auto
  have ne06: "rep p0 0 \<noteq> rep p0 6" using C[rule_format, of 0 6] n nR(2) by auto
  have ne46: "rep p0 4 \<noteq> rep p0 6" using C[rule_format, of 4 6] n nR(3) by auto
  have "{rep p0 0, rep p0 4, rep p0 6} \<subseteq> rep p0 ` {..<length ?bs}"
    using n by auto
  then have "card {rep p0 0, rep p0 4, rep p0 6} \<le> card (rep p0 ` {..<length ?bs})"
    by (intro card_mono) auto
  moreover have "card {rep p0 0, rep p0 4, rep p0 6} = 3"
    using ne04 ne06 ne46 by simp
  ultimately have three: "3 \<le> card (components ?bs (prunedLinks ?bs))"
    using components_card[OF d p0] by simp
  from bookGraphData_repair_count[OF ne valid_cluster, of None] obtain g bests where
    g: "bookGraphData ?bs None = Some g"
       "repairLinks ?bs g
          = map (\<lambda>b. repairLink ?bs b (searchedIdx ?bs None)
                       (simTo ?bs (searchedIdx ?bs None) b)) bests"
       "length bests + 1 = card (components ?bs (prunedLinks ?bs))"
    by blast
  have "\<forall>l\<in>set (repairLinks ?bs g). target l = id_node (?bs ! searchedIdx ?bs None)"
    unfolding g(2) by (simp add: repairLink_def)
  from touching_target[OF this]
  have "length (touching (id_node (?bs ! searchedIdx ?bs None)) (repairLinks ?bs g))
        = length bests"
    by (simp add: g(2))
  with three g(3) g(1) show ?thesis by auto
qed

subsection \<open>The build on the two out-of-range books\<close>

lemma upt_2: "[0..<2] = [0, 1]" "[1..<2] = [1]" "[2..<2] = []" "[Suc 0..<2] = [1]"
  by (simp_all add: upt_rec)

lemma prunedPairs_outOfRange:
  "prunedPairs outOfRangeBooks = [\<lparr>pair_i = 0, pair_j = 1, pair_sim = 1\<rparr>]"
proof -
  have ap: "allPairs outOfRangeBooks = [\<lparr>pair_i = 0, pair_j = 1, pair_sim = 1\<rparr>]"
    by (simp add: allPairs_def outOfRangeBooks_def upt_2 book_def sim_examples)
  have tt: "targetTotalConnections outOfRangeBooks = 3"
    by (simp add: targetTotalConnections_def outOfRangeBooks_def)
  have sel: "selectedPairs outOfRangeBooks = [\<lparr>pair_i = 0, pair_j = 1, pair_sim = 1\<rparr>]"
    by (simp add: selectedPairs_def sortedPairs_def ap sort_js_def tt getCount_def
        maxConnectionsPerNode_def)
  show ?thesis
    by (simp add: prunedPairs_def sel edgesToKeep_def sort_js_def)
qed

lemma reason_outOfRange:
  "generateConnectionReason (book ''a'' (scores 2 0 0 0 0)) (book ''b'' (scores 1 0 0 0 0)) 1 =
     ''These works share a 100% thematic similarity based on their emotional and intellectual profiles.''"
proof -
  have dm: "dimensions (scores 2 0 0 0 0) (scores 1 0 0 0 0) =
     [\<lparr>name = ''moody atmosphere'', diff = 1, avg = 3 / 2\<rparr>,
      \<lparr>name = ''scientific rigor'', diff = 0, avg = 0\<rparr>,
      \<lparr>name = ''optimistic outlook'', diff = 0, avg = 0\<rparr>,
      \<lparr>name = ''philosophical depth'', diff = 0, avg = 0\<rparr>,
      \<lparr>name = ''adventurous spirit'', diff = 0, avg = 0\<rparr>]"
    by (simp add: dimensions_def scores_def)
  have sd: "sortedDimensions (scores 2 0 0 0 0) (scores 1 0 0 0 0) =
     [\<lparr>name = ''scientific rigor'', diff = 0, avg = 0\<rparr>,
      \<lparr>name = ''optimistic outlook'', diff = 0, avg = 0\<rparr>,
      \<lparr>name = ''philosophical depth'', diff = 0, avg = 0\<rparr>,
      \<lparr>name = ''adventurous spirit'', diff = 0, avg = 0\<rparr>,
      \<lparr>name = ''moody atmosphere'', diff = 1, avg = 3 / 2\<rparr>]"
    by (simp add: sortedDimensions_def dm sort_js_def)
  have re: "reasons (scores 2 0 0 0 0) (scores 1 0 0 0 0) = []"
    by (simp add: reasons_def topMatches_def sd)
  have mr: "Math_round (1 * 100) = 100" by (simp add: Math_round_def)
  have ns: "numberToString 100 = ''100''" by (simp add: numberToString_def digits.simps)
  show ?thesis
    using mr by (simp add: generateConnectionReason_def book_def re ns)
qed

lemma prunedLinks_outOfRange:
  "prunedLinks outOfRangeBooks =
     [\<lparr>source = ''a'', target = ''b'', similarityWeight = 1,
       reason = ''These works share a 100% thematic similarity based on their emotional and intellectual profiles.''\<rparr>]"
proof -
  have "outOfRangeBooks ! 0 = book ''a'' (scores 2 0 0 0 0)"
    "outOfRangeBooks ! 1 = book ''b'' (scores 1 0 0 0 0)"
    by (simp_all add: outOfRangeBooks_def)
  then show ?thesis
    using reason_outOfRange
    by (simp add: prunedLinks_def prunedPairs_outOfRange pairLink_def) (simp add: book_def)
qed

lemma nodeIdToIndex_outOfRange:
  "nodeIdToIndex outOfRangeBooks ''a'' = Some 0" "nodeIdToIndex outOfRangeBooks ''b'' = Some 1"
  by (simp_all add: nodeIdToIndex_def outOfRangeBooks_def book_def upt_2)

lemma repaired_outOfRange:
  "repaired outOfRangeBooks None = Some ([1, 1], prunedLinks outOfRangeBooks)"
proof -
  have u: "unionLinks (nodeIdToIndex outOfRangeBooks) (prunedLinks outOfRangeBooks)
             [0, Suc 0] = Some [Suc 0, Suc 0]"
    unfolding prunedLinks_outOfRange
    by (simp add: nodeIdToIndex_outOfRange union_uf_def find_uf.simps)
  have f: "find_uf [Suc 0, Suc 0] 0 = Some (Suc 0, [Suc 0, Suc 0])"
    "find_uf [Suc 0, Suc 0] (Suc 0) = Some (Suc 0, [Suc 0, Suc 0])"
    by (simp_all add: find_uf.simps)
  have l: "length outOfRangeBooks = 2" by (simp add: outOfRangeBooks_def)
  show ?thesis
    by (simp add: repaired_def l upt_2 u searchedIdx_def f)
qed

lemma bookGraphData_outOfRange:
  "bookGraphData outOfRangeBooks None =
     Some \<lparr>nodes = outOfRangeBooks,
           links = [\<lparr>source = ''a'', target = ''b'', similarityWeight = 1,
                     reason = ''These works share a 100% thematic similarity based on their emotional and intellectual profiles.''\<rparr>]\<rparr>"
proof -
  have l: "length outOfRangeBooks = 2" by (simp add: outOfRangeBooks_def)
  show ?thesis
    by (simp add: bookGraphData_def l repaired_outOfRange prunedLinks_outOfRange)
qed

subsection \<open>The build on five books, one with a negative component\<close>

lemma sim_negative:
  "calculateSimilarity (scores 1 0 0 0 0) (scores (- 1) 0 0 0 0) = - 1"
  "calculateSimilarity (scores (- 1) 0 0 0 0) (scores 1 0 0 0 0) = - 1"
  by (simp_all add: calculateSimilarity_def dotProduct_vec magnitude_vec scores_def Let_def)

lemma upt_5:
  "[0..<5] = [0, 1, 2, 3, 4]" "[1..<5] = [1, 2, 3, 4]" "[2..<5] = [2, 3, 4]"
  "[3..<5] = [3, 4]" "[4..<5] = [4]" "[5..<5] = []"
  by (simp_all add: upt_rec)

lemma prunedPairs_negative:
  "prunedPairs negativeBooks =
     [\<lparr>pair_i = 0, pair_j = 1, pair_sim = 1\<rparr>, \<lparr>pair_i = 0, pair_j = 2, pair_sim = 1\<rparr>,
      \<lparr>pair_i = 0, pair_j = 3, pair_sim = 1\<rparr>, \<lparr>pair_i = 1, pair_j = 2, pair_sim = 1\<rparr>,
      \<lparr>pair_i = 1, pair_j = 3, pair_sim = 1\<rparr>]"
proof -
  have ap: "allPairs negativeBooks =
     [\<lparr>pair_i = 0, pair_j = 1, pair_sim = 1\<rparr>, \<lparr>pair_i = 0, pair_j = 2, pair_sim = 1\<rparr>,
      \<lparr>pair_i = 0, pair_j = 3, pair_sim = 1\<rparr>, \<lparr>pair_i = 0, pair_j = 4, pair_sim = - 1\<rparr>,
      \<lparr>pair_i = 1, pair_j = 2, pair_sim = 1\<rparr>, \<lparr>pair_i = 1, pair_j = 3, pair_sim = 1\<rparr>,
      \<lparr>pair_i = 1, pair_j = 4, pair_sim = - 1\<rparr>, \<lparr>pair_i = 2, pair_j = 3, pair_sim = 1\<rparr>,
      \<lparr>pair_i = 2, pair_j = 4, pair_sim = - 1\<rparr>, \<lparr>pair_i = 3, pair_j = 4, pair_sim = - 1\<rparr>]"
    by (simp add: allPairs_def negativeBooks_def upt_5 book_def sim_examples sim_negative)
  have sp: "sortedPairs negativeBooks =
     [\<lparr>pair_i = 0, pair_j = 1, pair_sim = 1\<rparr>, \<lparr>pair_i = 0, pair_j = 2, pair_sim = 1\<rparr>,
      \<lparr>pair_i = 0, pair_j = 3, pair_sim = 1\<rparr>, \<lparr>pair_i = 1, pair_j = 2, pair_sim = 1\<rparr>,
      \<lparr>pair_i = 1, pair_j = 3, pair_sim = 1\<rparr>, \<lparr>pair_i = 2, pair_j = 3, pair_sim = 1\<rparr>,
      \<lparr>pair_i = 0, pair_j = 4, pair_sim = - 1\<rparr>, \<lparr>pair_i = 1, pair_j = 4, pair_sim = - 1\<rparr>,
      \<lparr>pair_i = 2, pair_j = 4, pair_sim = - 1\<rparr>, \<lparr>pair_i = 3, pair_j = 4, pair_sim = - 1\<rparr>]"
    by (simp add: sortedPairs_def ap sort_js_def)
  have tt: "targetTotalConnections negativeBooks = 7"
    by (simp add: targetTotalConnections_def negativeBooks_def)
  have sel: "selectedPairs negativeBooks =
     [\<lparr>pair_i = 0, pair_j = 1, pair_sim = 1\<rparr>, \<lparr>pair_i = 0, pair_j = 2, pair_sim = 1\<rparr>,
      \<lparr>pair_i = 0, pair_j = 3, pair_sim = 1\<rparr>, \<lparr>pair_i = 1, pair_j = 2, pair_sim = 1\<rparr>,
      \<lparr>pair_i = 1, pair_j = 3, pair_sim = 1\<rparr>, \<lparr>pair_i = 2, pair_j = 3, pair_sim = 1\<rparr>]"
    by (simp add: selectedPairs_def sp tt getCount_def maxConnectionsPerNode_def)
  show ?thesis
    by (simp add: prunedPairs_def sel edgesToKeep_def sort_js_def)
qed

lemma pairLink_ends:
  "source (pairLink bs p) = id_node (bs ! pair_i p)"
  "target (pairLink bs p) = id_node (bs ! pair_j p)"
  by (simp_all add: pairLink_def)

lemma nodeIdToIndex_negative:
  "nodeIdToIndex negativeBooks ''a'' = Some 0" "nodeIdToIndex negativeBooks ''b'' = Some 1"
  "nodeIdToIndex negativeBooks ''c'' = Some 2" "nodeIdToIndex negativeBooks ''d'' = Some 3"
  by (simp_all add: nodeIdToIndex_def negativeBooks_def book_def upt_5)

lemma ids_negative:
  "id_node (negativeBooks ! 0) = ''a''" "id_node (negativeBooks ! Suc 0) = ''b''"
  "id_node (negativeBooks ! 2) = ''c''" "id_node (negativeBooks ! 3) = ''d''"
  "id_node (negativeBooks ! 4) = ''e''"
  by (simp_all add: negativeBooks_def book_def)

lemma union_steps:
  "union_uf [0, Suc 0, 2, 3, 4] 0 (Suc 0) = Some [Suc 0, Suc 0, 2, 3, 4]"
  "union_uf [Suc 0, Suc 0, 2, 3, 4] 0 2 = Some [Suc 0, 2, 2, 3, 4]"
  "union_uf [Suc 0, 2, 2, 3, 4] 0 3 = Some [2, 2, 3, 3, 4]"
  "union_uf [2, 2, 3, 3, 4] (Suc 0) 2 = Some [2, 3, 3, 3, 4]"
  "union_uf [2, 3, 3, 3, 4] (Suc 0) 3 = Some [2, 3, 3, 3, 4]"
  by (simp_all add: union_uf_def find_uf.simps)


lemma linkEdges_negative:
  "linkEdges (prunedLinks negativeBooks) =
     {(''a'', ''b''), (''a'', ''c''), (''a'', ''d''), (''b'', ''c''), (''b'', ''d'')}"
  by (simp add: linkEdges_def prunedLinks_def prunedPairs_negative pairLink_ends ids_negative)

lemma unionLinks_negative:
  "unionLinks (nodeIdToIndex negativeBooks) (prunedLinks negativeBooks) [0, Suc 0, 2, 3, 4]
     = Some [2, 3, 3, 3, 4]"
  by (simp add: prunedLinks_def prunedPairs_negative pairLink_ends ids_negative
      nodeIdToIndex_negative union_steps)

lemma find_negative:
  "find_uf [2, 3, 3, 3, 4] 0 = Some (3, [3, 3, 3, 3, 4])"
  "find_uf [3, 3, 3, 3, 4] 0 = Some (3, [3, 3, 3, 3, 4])"
  "find_uf [3, 3, 3, 3, 4] (Suc 0) = Some (3, [3, 3, 3, 3, 4])"
  "find_uf [3, 3, 3, 3, 4] 2 = Some (3, [3, 3, 3, 3, 4])"
  "find_uf [3, 3, 3, 3, 4] 3 = Some (3, [3, 3, 3, 3, 4])"
  "find_uf [3, 3, 3, 3, 4] 4 = Some (4, [3, 3, 3, 3, 4])"
  by (simp_all add: find_uf.simps)

lemma bestNode_negative: "bestNode negativeBooks 0 [4] = (None, - 1)"
  by (simp add: bestNode_def negativeBooks_def book_def sim_negative)

lemma repaired_negative:
  "repaired negativeBooks None = Some ([3, 3, 3, 3, 4], prunedLinks negativeBooks)"
proof -
  have l: "length negativeBooks = 5" by (simp add: negativeBooks_def)
  show ?thesis
    by (simp add: repaired_def l upt_5 unionLinks_negative searchedIdx_def find_negative
        set_add_def bestNode_negative)
qed

lemma bookGraphData_negative:
  "bookGraphData negativeBooks None
     = Some \<lparr>nodes = negativeBooks, links = prunedLinks negativeBooks\<rparr>"
proof -
  have l: "length negativeBooks = 5" by (simp add: negativeBooks_def)
  show ?thesis
    by (simp add: bookGraphData_def l repaired_negative)
qed

lemma reachable_negative: "(''e'', ''a'') \<notin> reachable (prunedLinks negativeBooks)"
proof
  assume "(''e'', ''a'') \<in> reachable (prunedLinks negativeBooks)"
  then have r: "(''e'', ''a'') \<in> (linkEdges (prunedLinks negativeBooks)
                   \<union> (linkEdges (prunedLinks negativeBooks))\<inverse>)\<^sup>*"
    by (simp add: reachable_def)
  have "y = ''e''"
    if "(x, y) \<in> (linkEdges (prunedLinks negativeBooks)
                   \<union> (linkEdges (prunedLinks negativeBooks))\<inverse>)\<^sup>*" "x = ''e''" for x y
    using that by (induction rule: rtrancl_induct) (auto simp: linkEdges_negative)
  from this[OF r] show False by simp
qed

text \<open>
  The bound on the components is needed: with a component \<open>-1\<close> the similarity of the
  fifth book to the anchor is \<open>-1\<close>, which is not greater than the start value of
  \<^verbatim>\<open>bestSimilarity\<close>, so no repair link is added and the book stays unreachable.
\<close>

lemma negative_component_unreachable:
  "\<exists>g. bookGraphData negativeBooks None = Some g
       \<and> (''e'', ''a'') \<notin> reachable (links g)
       \<and> ''e'' \<in> id_node ` set negativeBooks
       \<and> id_node (negativeBooks ! searchedIdx negativeBooks None) = ''a''"
  using reachable_negative
  by (simp add: bookGraphData_negative searchedIdx_def) (simp add: negativeBooks_def book_def)

subsection \<open>Connectivity of the returned graph\<close>

lemma single_component:
  assumes "V \<noteq> {}" "\<forall>u\<in>V. \<forall>v\<in>V. (u, v) \<in> r"
  shows "V // (r \<inter> V \<times> V) = {V}"
proof -
  have "(r \<inter> V \<times> V) `` {u} = V" if "u \<in> V" for u
    using assms(2) that by auto
  then show ?thesis using assms(1) by (auto simp: quotient_def)
qed

lemma valid_twoBooks:
  "twoBooks \<noteq> []" "validEntities twoBooks" "''b'' \<in> id_node ` set twoBooks"
  "''zz'' \<notin> id_node ` set twoBooks"
  by (simp_all add: twoBooks_def validEntities_def validScores_def book_def scores_def)

text \<open>
  C1. For a non-empty list of entities with distinct identifiers and valid sentiment
  vectors, and an anchor identifier that occurs in the list, the build returns a graph
  on the given nodes in which every node is joined to the anchor by a path of returned
  links; the nodes form a single connected component. The repair loop picks a node of a
  component only when its similarity to the anchor exceeds \<open>-1\<close>, which holds for valid
  vectors, whose similarity is not negative.
\<close>

theorem bookGraphData_connected:
  assumes "bs \<noteq> []" and "validEntities bs" and "anchor \<in> id_node ` set bs"
  shows "\<exists>g. bookGraphData bs (Some anchor) = Some g \<and> nodes g = bs
           \<and> (\<forall>b\<in>set bs. (id_node b, anchor) \<in> reachable (links g))
           \<and> components bs (links g) = {id_node ` set bs}"
proof -
  let ?s = "searchedIdx bs (Some anchor)"
  have s: "?s < length bs" using assms(1) by (rule searchedIdx_lt)
  have sim: "\<forall>x<length bs. - 1 < simTo bs ?s x"
    using validEntities_sim[OF assms(2) s] by blast
  from bookGraphData_reachable[OF assms(1) sim] obtain g where
    g: "bookGraphData bs (Some anchor) = Some g" "nodes g = bs"
       "\<forall>x<length bs. (id_node (bs ! x), id_node (bs ! ?s)) \<in> reachable (links g)"
    by blast
  have to_s: "(id_node b, id_node (bs ! ?s)) \<in> reachable (links g)" if "b \<in> set bs" for b
    using that g(3) by (auto simp: in_set_conv_nth)
  from assms(3) obtain a where a: "a \<in> set bs" "anchor = id_node a" by auto
  have r: "(id_node b, id_node c) \<in> reachable (links g)"
    if "b \<in> set bs" "c \<in> set bs" for b c
    using to_s[OF that(1)] reachable_sym[OF to_s[OF that(2)]] by (rule reachable_trans)
  have anchor: "\<forall>b\<in>set bs. (id_node b, anchor) \<in> reachable (links g)"
    using r a by blast
  have "id_node ` set bs \<noteq> {}" using assms(1) by simp
  moreover have "\<forall>u\<in>id_node ` set bs. \<forall>v\<in>id_node ` set bs. (u, v) \<in> reachable (links g)"
    using r by blast
  ultimately have c: "components bs (links g) = {id_node ` set bs}"
    unfolding components_def by (rule single_component)
  show ?thesis
    by (intro exI[of _ g] conjI) (fact g(1) g(2) anchor c)+
qed

theorem bookGraphData_connected_witness:
  "twoBooks \<noteq> [] \<and> validEntities twoBooks \<and> ''b'' \<in> id_node ` set twoBooks
   \<and> (\<exists>g. bookGraphData twoBooks (Some ''b'') = Some g \<and> nodes g = twoBooks
         \<and> (\<forall>b\<in>set twoBooks. (id_node b, ''b'') \<in> reachable (links g))
         \<and> components twoBooks (links g) = {id_node ` set twoBooks})"
  using bookGraphData_connected[OF valid_twoBooks(1,2,3)] valid_twoBooks(1,2,3) by blast

subsection \<open>Edge counts\<close>

text \<open>
  C2. The links present after pruning and before repair number
  \<open>ceil (0.7 * min (selected candidates) (floor (n * 1.5)))\<close>. For a non-empty list of
  entities with distinct identifiers and valid vectors, the repair loop then appends
  one link less than the pruned graph has connected components.
\<close>

theorem pruned_and_repair_counts:
  "length (prunedLinks bs)
     = nat \<lceil>0.7 * real (min (length (selectedPairs bs)) (targetTotalConnections bs))\<rceil>
   \<and> (bs \<noteq> [] \<and> validEntities bs \<longrightarrow>
        (\<exists>g. bookGraphData bs h = Some g
           \<and> links g = prunedLinks bs @ repairLinks bs g
           \<and> int (length (repairLinks bs g))
               = int (card (components bs (prunedLinks bs))) - 1))"
proof
  have m: "min (length (selectedPairs bs)) (targetTotalConnections bs)
           = length (selectedPairs bs)"
  proof (cases "bs = []")
    case True
    then show ?thesis
      by (simp add: selectedPairs_def sortedPairs_def allPairs_def sort_js_def)
  next
    case False
    with selectedPairs_props[of bs] show ?thesis by simp
  qed
  show "length (prunedLinks bs)
     = nat \<lceil>0.7 * real (min (length (selectedPairs bs)) (targetTotalConnections bs))\<rceil>"
    unfolding m by (simp add: prunedLinks_def length_prunedPairs)
next
  show "bs \<noteq> [] \<and> validEntities bs \<longrightarrow>
        (\<exists>g. bookGraphData bs h = Some g
           \<and> links g = prunedLinks bs @ repairLinks bs g
           \<and> int (length (repairLinks bs g))
               = int (card (components bs (prunedLinks bs))) - 1)"
  proof
    assume a: "bs \<noteq> [] \<and> validEntities bs"
    then have ne: "bs \<noteq> []" and v: "validEntities bs" by simp_all
    from bookGraphData_repair_count[OF ne v, of h] obtain g bests where
      g: "bookGraphData bs h = Some g" "links g = prunedLinks bs @ repairLinks bs g"
         "repairLinks bs g
            = map (\<lambda>b. repairLink bs b (searchedIdx bs h) (simTo bs (searchedIdx bs h) b))
                bests"
         "length bests + 1 = card (components bs (prunedLinks bs))"
      by blast
    have "length (repairLinks bs g) = length bests" unfolding g(3) by simp
    with g(4) have "int (length (repairLinks bs g))
               = int (card (components bs (prunedLinks bs))) - 1"
      by linarith
    with g(1,2) show "\<exists>g. bookGraphData bs h = Some g
           \<and> links g = prunedLinks bs @ repairLinks bs g
           \<and> int (length (repairLinks bs g))
               = int (card (components bs (prunedLinks bs))) - 1"
      by blast
  qed
qed

theorem pruned_and_repair_counts_witness:
  "twoBooks \<noteq> [] \<and> validEntities twoBooks
   \<and> (\<exists>g. bookGraphData twoBooks None = Some g
         \<and> links g = prunedLinks twoBooks @ repairLinks twoBooks g
         \<and> int (length (repairLinks twoBooks g))
             = int (card (components twoBooks (prunedLinks twoBooks))) - 1)"
  using pruned_and_repair_counts[of twoBooks None] valid_twoBooks(1,2) by blast

subsection \<open>Degrees\<close>

lemma filter_eq_distinct: "distinct xs \<Longrightarrow> length (filter (\<lambda>x. x = a) xs) \<le> 1"
  by (induction xs) (auto simp: filter_empty_conv)

lemma degree_sort_js: "degree (sort_js cmp ps) v = degree ps v"
proof -
  have "degree qs v = size (filter_mset (\<lambda>p. pair_i p = v \<or> pair_j p = v) (mset qs))" for qs
    by (simp add: degree_def flip: mset_filter)
  then show ?thesis by (simp add: mset_sort_js)
qed

lemma degree_take: "degree (take k ps) v \<le> degree ps v"
proof -
  have "degree ps v = degree (take k ps) v + degree (drop k ps) v"
    unfolding degree_def by (metis append_take_drop_id filter_append length_append)
  then show ?thesis by simp
qed

lemma degree_prunedPairs: "degree (prunedPairs bs) v \<le> 3"
proof -
  have "degree (prunedPairs bs) v \<le> degree (selectedPairs bs) v"
    unfolding prunedPairs_def using degree_take degree_sort_js by metis
  with selectedPairs_props[of bs] show ?thesis by (meson le_trans)
qed

lemma touching_prunedLinks:
  assumes d: "distinct (map id_node bs)" and x: "x < length bs"
  shows "length (touching (id_node (bs ! x)) (prunedLinks bs)) = degree (prunedPairs bs) x"
proof -
  have "(source (pairLink bs p) = id_node (bs ! x) \<or> target (pairLink bs p) = id_node (bs ! x))
        = (pair_i p = x \<or> pair_j p = x)"
    if "p \<in> set (prunedPairs bs)" for p
  proof -
    from that prunedPairs_subset have "p \<in> set (allPairs bs)" by blast
    from allPairs_range[OF this] have "pair_i p < length bs" "pair_j p < length bs" by auto
    with d x show ?thesis
      by (auto simp: pairLink_def distinct_conv_nth)
  qed
  then have "filter (\<lambda>p. source (pairLink bs p) = id_node (bs ! x)
                        \<or> target (pairLink bs p) = id_node (bs ! x)) (prunedPairs bs)
             = filter (\<lambda>p. pair_i p = x \<or> pair_j p = x) (prunedPairs bs)"
    by (intro filter_cong) auto
  then show ?thesis
    by (simp add: touching_def prunedLinks_def filter_map o_def degree_def)
qed

lemma prunedLinks_Nil: "prunedLinks [] = []"
proof -
  have "selectedPairs [] = []"
    by (simp add: selectedPairs_def sortedPairs_def allPairs_def sort_js_def)
  with length_prunedPairs[of "[]"] show ?thesis by (simp add: prunedLinks_def)
qed

text \<open>
  C3. No node is an endpoint of more than three pairs chosen by the greedy selection, nor
  of more than three of the pairs kept by the pruning. For a list of entities with
  distinct identifiers and valid vectors, no node is touched by more than three of the
  links that come from the selection, every link that the repair loop appends ends at
  the anchor, and a node other than the anchor is touched by at most one of them. The
  anchor can be touched by several: for the seven books of \<open>clusterBooks\<close> it is touched
  by two.
\<close>

theorem degree_cap_and_repair:
  "(\<forall>v. degree (selectedPairs bs) v \<le> 3 \<and> degree (prunedPairs bs) v \<le> 3)
   \<and> (validEntities bs \<longrightarrow>
        (\<exists>g. bookGraphData bs h = Some g
           \<and> links g = prunedLinks bs @ repairLinks bs g
           \<and> (\<forall>b\<in>set bs. length (touching (id_node b) (prunedLinks bs)) \<le> 3)
           \<and> (\<forall>l\<in>set (repairLinks bs g). target l = id_node (bs ! searchedIdx bs h))
           \<and> (\<forall>b\<in>set bs. id_node b \<noteq> id_node (bs ! searchedIdx bs h) \<longrightarrow>
                 length (touching (id_node b) (repairLinks bs g)) \<le> 1)))
   \<and> (\<exists>g. bookGraphData clusterBooks None = Some g
         \<and> 2 \<le> length (touching (id_node (clusterBooks ! searchedIdx clusterBooks None))
                           (repairLinks clusterBooks g)))"
proof (intro conjI)
  show "\<forall>v. degree (selectedPairs bs) v \<le> 3 \<and> degree (prunedPairs bs) v \<le> 3"
    using selectedPairs_props[of bs] degree_prunedPairs[of bs] by blast
next
  show "\<exists>g. bookGraphData clusterBooks None = Some g
         \<and> 2 \<le> length (touching (id_node (clusterBooks ! searchedIdx clusterBooks None))
                           (repairLinks clusterBooks g))"
    by (rule cluster_repairs)
next
  show "validEntities bs \<longrightarrow>
        (\<exists>g. bookGraphData bs h = Some g
           \<and> links g = prunedLinks bs @ repairLinks bs g
           \<and> (\<forall>b\<in>set bs. length (touching (id_node b) (prunedLinks bs)) \<le> 3)
           \<and> (\<forall>l\<in>set (repairLinks bs g). target l = id_node (bs ! searchedIdx bs h))
           \<and> (\<forall>b\<in>set bs. id_node b \<noteq> id_node (bs ! searchedIdx bs h) \<longrightarrow>
                 length (touching (id_node b) (repairLinks bs g)) \<le> 1))"
  proof (intro impI, cases "bs = []")
    case True
    then show "\<exists>g. bookGraphData bs h = Some g
           \<and> links g = prunedLinks bs @ repairLinks bs g
           \<and> (\<forall>b\<in>set bs. length (touching (id_node b) (prunedLinks bs)) \<le> 3)
           \<and> (\<forall>l\<in>set (repairLinks bs g). target l = id_node (bs ! searchedIdx bs h))
           \<and> (\<forall>b\<in>set bs. id_node b \<noteq> id_node (bs ! searchedIdx bs h) \<longrightarrow>
                 length (touching (id_node b) (repairLinks bs g)) \<le> 1)"
      by (simp add: bookGraphData_def repairLinks_def prunedLinks_Nil)
  next
    case False
    assume v: "validEntities bs"
    let ?s = "searchedIdx bs h"
    have d: "distinct (map id_node bs)" using v by (simp add: validEntities_def)
    from bookGraphData_repair_count[OF False v, of h] obtain g bests where
      g: "bookGraphData bs h = Some g" "links g = prunedLinks bs @ repairLinks bs g"
         "repairLinks bs g = map (\<lambda>b. repairLink bs b ?s (simTo bs ?s b)) bests"
         "distinct bests" "\<forall>b\<in>set bests. b < length bs"
      by blast
    have three: "\<forall>b\<in>set bs. length (touching (id_node b) (prunedLinks bs)) \<le> 3"
      using touching_prunedLinks[OF d] degree_prunedPairs[of bs]
      by (auto simp: in_set_conv_nth)
    have t: "\<forall>l\<in>set (repairLinks bs g). target l = id_node (bs ! ?s)"
      unfolding g(3) by (simp add: repairLink_def)
    have one: "length (touching (id_node b) (repairLinks bs g)) \<le> 1"
      if b: "b \<in> set bs" "id_node b \<noteq> id_node (bs ! ?s)" for b
    proof -
      from b(1) obtain x where x: "x < length bs" "b = bs ! x"
        by (auto simp: in_set_conv_nth)
      have "(id_node (bs ! y) = id_node b) = (y = x)" if "y \<in> set bests" for y
        using that g(5) x d by (auto simp: distinct_conv_nth)
      then have "filter (\<lambda>y. id_node (bs ! y) = id_node b \<or> id_node (bs ! ?s) = id_node b) bests
            = filter (\<lambda>y. y = x) bests"
        using b(2) by (intro filter_cong) auto
      then have "length (touching (id_node b) (repairLinks bs g))
            = length (filter (\<lambda>y. y = x) bests)"
        unfolding g(3) touching_def
        by (simp add: filter_map o_def repairLink_def)
      with filter_eq_distinct[OF g(4), of x] show ?thesis by simp
    qed
    show "\<exists>g. bookGraphData bs h = Some g
           \<and> links g = prunedLinks bs @ repairLinks bs g
           \<and> (\<forall>b\<in>set bs. length (touching (id_node b) (prunedLinks bs)) \<le> 3)
           \<and> (\<forall>l\<in>set (repairLinks bs g). target l = id_node (bs ! ?s))
           \<and> (\<forall>b\<in>set bs. id_node b \<noteq> id_node (bs ! ?s) \<longrightarrow>
                 length (touching (id_node b) (repairLinks bs g)) \<le> 1)"
      using g(1,2) three t one by blast
  qed
qed

theorem degree_cap_and_repair_witness:
  "validEntities twoBooks
   \<and> (\<forall>v. degree (selectedPairs twoBooks) v \<le> 3)
   \<and> (\<exists>g. bookGraphData twoBooks None = Some g
         \<and> (\<forall>b\<in>set twoBooks. length (touching (id_node b) (prunedLinks twoBooks)) \<le> 3)
         \<and> (\<forall>l\<in>set (repairLinks twoBooks g).
               target l = id_node (twoBooks ! searchedIdx twoBooks None))
         \<and> (\<forall>b\<in>set twoBooks. id_node b \<noteq> id_node (twoBooks ! searchedIdx twoBooks None) \<longrightarrow>
               length (touching (id_node b) (repairLinks twoBooks g)) \<le> 1))"
  using degree_cap_and_repair[of twoBooks None] valid_twoBooks(2) by blast

subsection \<open>Input that the data model excludes\<close>

text \<open>
  C5, as the claim states it, fails: the first of the two books of \<open>outOfRangeBooks\<close> has
  the component 2, and the build returns a graph whose link carries the similarity
  computed from that component, 1, which is also its value in double precision.
\<close>

theorem bookGraphData_out_of_range_counterexample:
  "\<not> validScores (sentimentScores (outOfRangeBooks ! 0))
   \<and> bookGraphData outOfRangeBooks None =
       Some \<lparr>nodes = outOfRangeBooks,
             links = [\<lparr>source = ''a'', target = ''b'', similarityWeight = 1,
                       reason = ''These works share a 100% thematic similarity based on their emotional and intellectual profiles.''\<rparr>]\<rparr>
   \<and> calculateSimilarity_ieee (ieee (sentimentScores (outOfRangeBooks ! 0)))
         (ieee (sentimentScores (outOfRangeBooks ! 1))) = Fin 1"
  using bookGraphData_outOfRange calculateSimilarity_ieee_values(3)
  by (simp add: outOfRangeBooks_def validScores_def book_def scores_def)

text \<open>
  C5, amended. The build validates nothing and raises no error: for every list of entities
  and every anchor it returns a graph whose nodes are the given entities, unchanged, and
  each of whose links joins the identifiers of two of them.
\<close>

theorem bookGraphData_total:
  "\<exists>g. bookGraphData bs h = Some g \<and> nodes g = bs
      \<and> (\<forall>l\<in>set (links g). \<exists>i<length bs. \<exists>j<length bs.
            source l = id_node (bs ! i) \<and> target l = id_node (bs ! j))"
proof -
  from bookGraphData_total_links[of bs h] obtain g where
    g: "bookGraphData bs h = Some g" "nodes g = bs"
    and l: "\<forall>l\<in>set (links g). \<exists>i<length bs. \<exists>j<length bs.
            source l = id_node (bs ! i) \<and> target l = id_node (bs ! j)
            \<and> similarityWeight l
                = calculateSimilarity (sentimentScores (bs ! i)) (sentimentScores (bs ! j))"
    by blast
  from l have "\<forall>l\<in>set (links g). \<exists>i<length bs. \<exists>j<length bs.
            source l = id_node (bs ! i) \<and> target l = id_node (bs ! j)"
    by blast
  with g show ?thesis by blast
qed

theorem bookGraphData_total_witness:
  "\<not> validScores (sentimentScores (outOfRangeBooks ! 0))
   \<and> (\<exists>g. bookGraphData outOfRangeBooks None = Some g \<and> nodes g = outOfRangeBooks
         \<and> links g \<noteq> []
         \<and> (\<exists>i<length outOfRangeBooks. \<exists>j<length outOfRangeBooks.
               source (hd (links g)) = id_node (outOfRangeBooks ! i)
               \<and> target (hd (links g)) = id_node (outOfRangeBooks ! j)))"
proof -
  have v: "\<not> validScores (sentimentScores (outOfRangeBooks ! 0))"
    by (simp add: outOfRangeBooks_def validScores_def book_def scores_def)
  from bookGraphData_total[of outOfRangeBooks None] obtain g where
    g: "bookGraphData outOfRangeBooks None = Some g" "nodes g = outOfRangeBooks"
    and l: "\<forall>l\<in>set (links g). \<exists>i<length outOfRangeBooks. \<exists>j<length outOfRangeBooks.
            source l = id_node (outOfRangeBooks ! i) \<and> target l = id_node (outOfRangeBooks ! j)"
    by blast
  have n: "links g \<noteq> []" using g(1) by (auto simp: bookGraphData_outOfRange)
  then have "hd (links g) \<in> set (links g)" by simp
  with l have "\<exists>i<length outOfRangeBooks. \<exists>j<length outOfRangeBooks.
            source (hd (links g)) = id_node (outOfRangeBooks ! i)
            \<and> target (hd (links g)) = id_node (outOfRangeBooks ! j)"
    by blast
  with v g n show ?thesis by blast
qed

subsection \<open>An anchor that is not in the list\<close>

text \<open>
  C10. When the anchor identifier is the identifier of no entity, the searched index is
  0, the build returns what it returns without an anchor, and it returns a graph on the
  given nodes. For a non-empty list of entities with distinct identifiers and valid
  vectors, every link appended by the repair loop ends at the first entity, there is one
  such link for each connected component of the pruned graph but one, and every node is
  joined to the first entity by a path.
\<close>

theorem searchedIdx_fallback:
  assumes "h \<notin> id_node ` set bs"
  shows "searchedIdx bs (Some h) = 0
     \<and> bookGraphData bs (Some h) = bookGraphData bs None
     \<and> (\<exists>g. bookGraphData bs (Some h) = Some g \<and> nodes g = bs)
     \<and> (bs \<noteq> [] \<and> validEntities bs \<longrightarrow>
          (\<exists>g. bookGraphData bs (Some h) = Some g
             \<and> (\<forall>l\<in>set (repairLinks bs g). target l = id_node (bs ! 0))
             \<and> length (repairLinks bs g) + 1 = card (components bs (prunedLinks bs))
             \<and> (\<forall>b\<in>set bs. (id_node b, id_node (bs ! 0)) \<in> reachable (links g))))"
proof (intro conjI impI)
  show s0: "searchedIdx bs (Some h) = 0"
    using nodeIdToIndex_None[OF assms] by (simp add: searchedIdx_def)
  have sn: "searchedIdx bs None = 0" by (simp add: searchedIdx_def)
  show "bookGraphData bs (Some h) = bookGraphData bs None"
    by (simp add: bookGraphData_def repaired_def s0 sn)
  show "\<exists>g. bookGraphData bs (Some h) = Some g \<and> nodes g = bs"
    using bookGraphData_total_links[of bs "Some h"] by blast
  assume a: "bs \<noteq> [] \<and> validEntities bs"
  then have ne: "bs \<noteq> []" and v: "validEntities bs" by simp_all
  have z: "0 < length bs" using ne by simp
  have sim: "\<forall>x<length bs. - 1 < simTo bs (searchedIdx bs (Some h)) x"
    unfolding s0 using validEntities_sim[OF v z] by blast
  from bookGraphData_reachable[OF ne sim] obtain g where
    g: "bookGraphData bs (Some h) = Some g"
       "\<forall>x<length bs. (id_node (bs ! x), id_node (bs ! 0)) \<in> reachable (links g)"
    unfolding s0 by blast
  from bookGraphData_repair_count[OF ne v, of "Some h"] g(1) obtain bests where
    c: "repairLinks bs g = map (\<lambda>b. repairLink bs b 0 (simTo bs 0 b)) bests"
       "length bests + 1 = card (components bs (prunedLinks bs))"
    unfolding s0 by auto
  have t: "\<forall>l\<in>set (repairLinks bs g). target l = id_node (bs ! 0)"
    unfolding c(1) by (simp add: repairLink_def)
  have n: "length (repairLinks bs g) + 1 = card (components bs (prunedLinks bs))"
    unfolding c(1) using c(2) by simp
  have r: "\<forall>b\<in>set bs. (id_node b, id_node (bs ! 0)) \<in> reachable (links g)"
    using g(2) by (auto simp: in_set_conv_nth)
  show "\<exists>g. bookGraphData bs (Some h) = Some g
             \<and> (\<forall>l\<in>set (repairLinks bs g). target l = id_node (bs ! 0))
             \<and> length (repairLinks bs g) + 1 = card (components bs (prunedLinks bs))
             \<and> (\<forall>b\<in>set bs. (id_node b, id_node (bs ! 0)) \<in> reachable (links g))"
    by (intro conjI exI[of _ g]) (fact g(1) t n r)+
qed

theorem searchedIdx_fallback_witness:
  "''zz'' \<notin> id_node ` set twoBooks \<and> twoBooks \<noteq> [] \<and> validEntities twoBooks
   \<and> searchedIdx twoBooks (Some ''zz'') = 0
   \<and> bookGraphData twoBooks (Some ''zz'') = bookGraphData twoBooks None
   \<and> (\<exists>g. bookGraphData twoBooks (Some ''zz'') = Some g
         \<and> (\<forall>l\<in>set (repairLinks twoBooks g). target l = id_node (twoBooks ! 0))
         \<and> length (repairLinks twoBooks g) + 1
             = card (components twoBooks (prunedLinks twoBooks))
         \<and> (\<forall>b\<in>set twoBooks.
               (id_node b, id_node (twoBooks ! 0)) \<in> reachable (links g)))"
  using searchedIdx_fallback[OF valid_twoBooks(4)] valid_twoBooks(1,2,4) by blast

subsection \<open>The explanation\<close>

lemma length_sortedDimensions: "length (sortedDimensions a b) = 5"
  by (simp add: sortedDimensions_def length_sort_js dimensions_def)

lemma sortedDimensions_sort_key:
  "sortedDimensions a b = sort_key combinedScore (dimensions a b)"
  unfolding sortedDimensions_def
  by (rule sort_js_sort_key) (auto simp: combinedScore_def field_simps)

subsection \<open>The explanation of two pairs in exact arithmetic\<close>

lemma topMatches_ranked:
  "topMatches rankedScoresA rankedScoresB =
     [\<lparr>name = ''scientific rigor'', diff = 0, avg = 1\<rparr>,
      \<lparr>name = ''adventurous spirit'', diff = 0, avg = 3 / 5\<rparr>]"
proof -
  have dm: "dimensions rankedScoresA rankedScoresB =
     [\<lparr>name = ''moody atmosphere'', diff = 7 / 10, avg = 11 / 20\<rparr>,
      \<lparr>name = ''scientific rigor'', diff = 0, avg = 1\<rparr>,
      \<lparr>name = ''optimistic outlook'', diff = 0, avg = 0\<rparr>,
      \<lparr>name = ''philosophical depth'', diff = 1 / 5, avg = 9 / 10\<rparr>,
      \<lparr>name = ''adventurous spirit'', diff = 0, avg = 3 / 5\<rparr>]"
    by (simp add: dimensions_def rankedScoresA_def rankedScoresB_def scores_fields)
  have "sortedDimensions rankedScoresA rankedScoresB =
     [\<lparr>name = ''scientific rigor'', diff = 0, avg = 1\<rparr>,
      \<lparr>name = ''adventurous spirit'', diff = 0, avg = 3 / 5\<rparr>,
      \<lparr>name = ''philosophical depth'', diff = 1 / 5, avg = 9 / 10\<rparr>,
      \<lparr>name = ''optimistic outlook'', diff = 0, avg = 0\<rparr>,
      \<lparr>name = ''moody atmosphere'', diff = 7 / 10, avg = 11 / 20\<rparr>]"
    by (simp add: sortedDimensions_def dm sort_js_def)
  then show ?thesis by (simp add: topMatches_def)
qed

lemma topMatches_half:
  "topMatches halfScores halfScores =
     [\<lparr>name = ''moody atmosphere'', diff = 0, avg = 1 / 2\<rparr>,
      \<lparr>name = ''scientific rigor'', diff = 0, avg = 0\<rparr>]"
proof -
  have dm: "dimensions halfScores halfScores =
     [\<lparr>name = ''moody atmosphere'', diff = 0, avg = 1 / 2\<rparr>,
      \<lparr>name = ''scientific rigor'', diff = 0, avg = 0\<rparr>,
      \<lparr>name = ''optimistic outlook'', diff = 0, avg = 0\<rparr>,
      \<lparr>name = ''philosophical depth'', diff = 0, avg = 0\<rparr>,
      \<lparr>name = ''adventurous spirit'', diff = 0, avg = 0\<rparr>]"
    by (simp add: dimensions_def halfScores_def scores_fields)
  have "sortedDimensions halfScores halfScores =
     [\<lparr>name = ''moody atmosphere'', diff = 0, avg = 1 / 2\<rparr>,
      \<lparr>name = ''scientific rigor'', diff = 0, avg = 0\<rparr>,
      \<lparr>name = ''optimistic outlook'', diff = 0, avg = 0\<rparr>,
      \<lparr>name = ''philosophical depth'', diff = 0, avg = 0\<rparr>,
      \<lparr>name = ''adventurous spirit'', diff = 0, avg = 0\<rparr>]"
    by (simp add: sortedDimensions_def dm sort_js_def)
  then show ?thesis by (simp add: topMatches_def)
qed

lemma percentages:
  "numberToString (Math_round (7 / 8 * 100)) = ''88''"
  "numberToString (Math_round (1 * 100)) = ''100''"
  by (simp_all add: Math_round_def numberToString_def digits.simps)

subsection \<open>The explanation in double precision of a pair with nearly equal scores\<close>

text \<open>
  The sort with a comparator that orders the elements of the list as a key does is the
  stable sort by that key.
\<close>

lemma insert_cmp_insort_key_on:
  assumes "\<And>y. y \<in> set ys \<Longrightarrow> (cmp x y \<le> 0) = (key x \<le> key y)"
  shows "insert_cmp cmp x ys = insort_key key x ys"
  using assms by (induction ys) auto

lemma sort_js_sort_key_on:
  fixes key :: "'a \<Rightarrow> real"
  assumes "\<And>x y. x \<in> set xs \<Longrightarrow> y \<in> set xs \<Longrightarrow> (cmp x y \<le> 0) = (key x \<le> key y)"
  shows "sort_js cmp xs = sort_key key xs"
  using assms
proof (induction xs)
  case Nil
  then show ?case by (simp add: sort_js_def sort_key_def)
next
  case (Cons x xs)
  have ih: "sort_js cmp xs = sort_key key xs" using Cons by simp
  have "insert_cmp cmp x (sort_js cmp xs) = insort_key key x (sort_js cmp xs)"
    by (rule insert_cmp_insort_key_on) (simp add: set_sort_js Cons.prems)
  then show ?case by (simp add: sort_js_def sort_key_def ih[unfolded sort_js_def sort_key_def])
qed

text \<open>
  The roundings that the explanations of the example pairs perform.
\<close>

lemma fl_values:
  "fl (2) = 2"
  "fl (1) = 1"
  "fl (1 / 4) = 1 / 4"
  "fl (5 / 4) = 5 / 4"
  "fl (5 / 8) = 5 / 8"
  "fl (900719925474099 / 18014398509481984) = 900719925474099 / 18014398509481984"
  "fl (8106479329266893 / 18014398509481984) = 8106479329266893 / 18014398509481984"
  "fl (8106479329266893 / 36028797018963968) = 8106479329266893 / 36028797018963968"
  "fl (1 / 2) = 1 / 2"
  "fl (17113678584007885 / 18014398509481984) = 4278419646001971 / 4503599627370496"
  "fl (9907919180215091 / 36028797018963968) = 2476979795053773 / 9007199254740992"
  "fl (2476979795053773 / 18014398509481984) = 2476979795053773 / 18014398509481984"
  "fl (14636698788954111 / 18014398509481984) = 13 / 16"
  "fl (3602879701896397 / 18014398509481984) = 3602879701896397 / 18014398509481984"
  "fl (14411518807585587 / 36028797018963968) = 3602879701896397 / 9007199254740992"
  "fl (3 / 8) = 3 / 8"
  "fl (3 / 16) = 3 / 16"
  "fl (7 / 16) = 7 / 16"
  "fl (27922317689697075 / 36028797018963968) = 6980579422424269 / 9007199254740992"
  "fl (6980579422424269 / 18014398509481984) = 6980579422424269 / 18014398509481984"
  "fl (3 / 4) = 3 / 4"
  "fl (1 / 8) = 1 / 8"
  "fl (1 / 16) = 1 / 16"
  "fl (13 / 16) = 13 / 16"
proof -
  show "fl (2) = 2"
    using fl_eval[of "2" 51 4503599627370496] by simp
  show "fl (1) = 1"
    using fl_eval[of "1" 52 4503599627370496] by simp
  show "fl (1 / 4) = 1 / 4"
    using fl_eval[of "1 / 4" 54 4503599627370496] by simp
  show "fl (5 / 4) = 5 / 4"
    using fl_eval[of "5 / 4" 52 5629499534213120] by simp
  show "fl (5 / 8) = 5 / 8"
    using fl_eval[of "5 / 8" 53 5629499534213120] by simp
  show "fl (900719925474099 / 18014398509481984) = 900719925474099 / 18014398509481984"
    using fl_eval[of "900719925474099 / 18014398509481984" 57 7205759403792792] by simp
  show "fl (8106479329266893 / 18014398509481984) = 8106479329266893 / 18014398509481984"
    using fl_eval[of "8106479329266893 / 18014398509481984" 54 8106479329266893] by simp
  show "fl (8106479329266893 / 36028797018963968) = 8106479329266893 / 36028797018963968"
    using fl_eval[of "8106479329266893 / 36028797018963968" 55 8106479329266893] by simp
  show "fl (1 / 2) = 1 / 2"
    using fl_eval[of "1 / 2" 53 4503599627370496] by simp
  show "fl (17113678584007885 / 18014398509481984) = 4278419646001971 / 4503599627370496"
    using fl_eval_tie[of "17113678584007885 / 18014398509481984" 53 8556839292003942] by simp
  show "fl (9907919180215091 / 36028797018963968) = 2476979795053773 / 9007199254740992"
    using fl_eval_tie[of "9907919180215091 / 36028797018963968" 54 4953959590107545] by simp
  show "fl (2476979795053773 / 18014398509481984) = 2476979795053773 / 18014398509481984"
    using fl_eval[of "2476979795053773 / 18014398509481984" 55 4953959590107546] by simp
  show "fl (14636698788954111 / 18014398509481984) = 13 / 16"
    using fl_eval_tie[of "14636698788954111 / 18014398509481984" 53 7318349394477055] by simp
  show "fl (3602879701896397 / 18014398509481984) = 3602879701896397 / 18014398509481984"
    using fl_eval[of "3602879701896397 / 18014398509481984" 55 7205759403792794] by simp
  show "fl (14411518807585587 / 36028797018963968) = 3602879701896397 / 9007199254740992"
    using fl_eval_tie[of "14411518807585587 / 36028797018963968" 54 7205759403792793] by simp
  show "fl (3 / 8) = 3 / 8"
    using fl_eval[of "3 / 8" 54 6755399441055744] by simp
  show "fl (3 / 16) = 3 / 16"
    using fl_eval[of "3 / 16" 55 6755399441055744] by simp
  show "fl (7 / 16) = 7 / 16"
    using fl_eval[of "7 / 16" 54 7881299347898368] by simp
  show "fl (27922317689697075 / 36028797018963968) = 6980579422424269 / 9007199254740992"
    using fl_eval[of "27922317689697075 / 36028797018963968" 53 6980579422424269] by simp
  show "fl (6980579422424269 / 18014398509481984) = 6980579422424269 / 18014398509481984"
    using fl_eval[of "6980579422424269 / 18014398509481984" 54 6980579422424269] by simp
  show "fl (3 / 4) = 3 / 4"
    using fl_eval[of "3 / 4" 53 6755399441055744] by simp
  show "fl (1 / 8) = 1 / 8"
    using fl_eval[of "1 / 8" 55 4503599627370496] by simp
  show "fl (1 / 16) = 1 / 16"
    using fl_eval[of "1 / 16" 56 4503599627370496] by simp
  show "fl (13 / 16) = 13 / 16"
    using fl_eval[of "13 / 16" 53 7318349394477056] by simp
qed

lemmas ops = fsub_def fadd_def fmul_def fdiv_def fl_zero fl_minus fl_values

lemma dimensions_f64_rounding:
  "dimensions_f64 roundingScoresA roundingScoresB =
     [\<lparr>name = ''moody atmosphere'', diff = 0, avg = 1\<rparr>,
      \<lparr>name = ''scientific rigor'', diff = 1 / 4, avg = 5 / 8\<rparr>,
      \<lparr>name = ''optimistic outlook'', diff = 900719925474099 / 18014398509481984,
         avg = 8106479329266893 / 36028797018963968\<rparr>,
      \<lparr>name = ''philosophical depth'', diff = 1, avg = 1 / 2\<rparr>,
      \<lparr>name = ''adventurous spirit'', diff = 1, avg = 1 / 2\<rparr>]"
  by (simp add: dimensions_f64_def roundingScoresA_def roundingScoresB_def scores_fields ops)

lemma compareDimensions_f64_rounding:
  "compareDimensions_f64 \<lparr>name = ''philosophical depth'', diff = 1, avg = 1 / 2\<rparr>
     \<lparr>name = ''adventurous spirit'', diff = 1, avg = 1 / 2\<rparr> = 0"
  "compareDimensions_f64 \<lparr>name = ''optimistic outlook'', diff = 900719925474099 / 18014398509481984,
         avg = 8106479329266893 / 36028797018963968\<rparr>
     \<lparr>name = ''philosophical depth'', diff = 1, avg = 1 / 2\<rparr> = - (13 / 16)"
  "compareDimensions_f64 \<lparr>name = ''scientific rigor'', diff = 1 / 4, avg = 5 / 8\<rparr>
     \<lparr>name = ''optimistic outlook'', diff = 900719925474099 / 18014398509481984,
         avg = 8106479329266893 / 36028797018963968\<rparr> = 0"
  "compareDimensions_f64 \<lparr>name = ''moody atmosphere'', diff = 0, avg = 1\<rparr>
     \<lparr>name = ''scientific rigor'', diff = 1 / 4, avg = 5 / 8\<rparr> = - (7 / 16)"
  "compareDimensions_f64 \<lparr>name = ''moody atmosphere'', diff = 0, avg = 1\<rparr>
     \<lparr>name = ''optimistic outlook'', diff = 900719925474099 / 18014398509481984,
         avg = 8106479329266893 / 36028797018963968\<rparr> = - (7 / 16)"
  "compareDimensions_f64 \<lparr>name = ''moody atmosphere'', diff = 0, avg = 1\<rparr>
     \<lparr>name = ''philosophical depth'', diff = 1, avg = 1 / 2\<rparr> = - (5 / 4)"
  "compareDimensions_f64 \<lparr>name = ''moody atmosphere'', diff = 0, avg = 1\<rparr>
     \<lparr>name = ''adventurous spirit'', diff = 1, avg = 1 / 2\<rparr> = - (5 / 4)"
  "compareDimensions_f64 \<lparr>name = ''scientific rigor'', diff = 1 / 4, avg = 5 / 8\<rparr>
     \<lparr>name = ''philosophical depth'', diff = 1, avg = 1 / 2\<rparr> = - (13 / 16)"
  "compareDimensions_f64 \<lparr>name = ''scientific rigor'', diff = 1 / 4, avg = 5 / 8\<rparr>
     \<lparr>name = ''adventurous spirit'', diff = 1, avg = 1 / 2\<rparr> = - (13 / 16)"
  "compareDimensions_f64 \<lparr>name = ''optimistic outlook'', diff = 900719925474099 / 18014398509481984,
         avg = 8106479329266893 / 36028797018963968\<rparr>
     \<lparr>name = ''adventurous spirit'', diff = 1, avg = 1 / 2\<rparr> = - (13 / 16)"
  "compareDimensions_f64 \<lparr>name = ''optimistic outlook'', diff = 900719925474099 / 18014398509481984,
         avg = 8106479329266893 / 36028797018963968\<rparr>
     \<lparr>name = ''scientific rigor'', diff = 1 / 4, avg = 5 / 8\<rparr> = 0"
  by (simp_all add: compareDimensions_f64_def ops)

lemma sortedDimensions_f64_rounding:
  "sortedDimensions_f64 roundingScoresA roundingScoresB =
     [\<lparr>name = ''moody atmosphere'', diff = 0, avg = 1\<rparr>,
      \<lparr>name = ''scientific rigor'', diff = 1 / 4, avg = 5 / 8\<rparr>,
      \<lparr>name = ''optimistic outlook'', diff = 900719925474099 / 18014398509481984,
         avg = 8106479329266893 / 36028797018963968\<rparr>,
      \<lparr>name = ''philosophical depth'', diff = 1, avg = 1 / 2\<rparr>,
      \<lparr>name = ''adventurous spirit'', diff = 1, avg = 1 / 2\<rparr>]"
  by (simp add: sortedDimensions_f64_def dimensions_f64_rounding sort_js_def
      compareDimensions_f64_rounding)

lemma reasons_f64_rounding:
  "reasons_f64 roundingScoresA roundingScoresB =
     [''Both share strong moody atmosphere'', ''similar scientific rigor'']"
  by (simp add: reasons_f64_def topMatches_f64_def sortedDimensions_f64_rounding)

text \<open>The third component of \<open>roundingScoresA\<close> is the double that \<^verbatim>\<open>0.2\<close> denotes.\<close>

lemma roundingScoresA_double: "fl (2 / 10) = 3602879701896397 / 2 ^ 54"
  using fl_eval[of "2 / 10" 55 7205759403792794] by simp

lemma generateConnectionReason_f64_rounding:
  "generateConnectionReason_f64 (book ''a'' roundingScoresA) (book ''b'' roundingScoresB) similarity
     = ''Both share strong moody atmosphere and similar scientific rigor. Overall ''
       @ numberToString (Math_round (fmul similarity 100)) @ ''% thematic match.''"
  by (simp add: generateConnectionReason_f64_def book_def reasons_f64_rounding)

lemma dimensions_rounding:
  "dimensions roundingScoresA roundingScoresB =
     [\<lparr>name = ''moody atmosphere'', diff = 0, avg = 1\<rparr>,
      \<lparr>name = ''scientific rigor'', diff = 1 / 4, avg = 5 / 8\<rparr>,
      \<lparr>name = ''optimistic outlook'', diff = 900719925474099 / 2 ^ 54,
         avg = 8106479329266893 / 2 ^ 55\<rparr>,
      \<lparr>name = ''philosophical depth'', diff = 1, avg = 1 / 2\<rparr>,
      \<lparr>name = ''adventurous spirit'', diff = 1, avg = 1 / 2\<rparr>]"
  by (simp add: dimensions_def roundingScoresA_def roundingScoresB_def scores_fields)

lemma sortedDimensions_rounding:
  "sortedDimensions roundingScoresA roundingScoresB =
     [\<lparr>name = ''moody atmosphere'', diff = 0, avg = 1\<rparr>,
      \<lparr>name = ''optimistic outlook'', diff = 900719925474099 / 2 ^ 54,
         avg = 8106479329266893 / 2 ^ 55\<rparr>,
      \<lparr>name = ''scientific rigor'', diff = 1 / 4, avg = 5 / 8\<rparr>,
      \<lparr>name = ''philosophical depth'', diff = 1, avg = 1 / 2\<rparr>,
      \<lparr>name = ''adventurous spirit'', diff = 1, avg = 1 / 2\<rparr>]"
  by (simp add: sortedDimensions_def dimensions_rounding sort_js_def)

lemma reasons_rounding:
  "reasons roundingScoresA roundingScoresB = [''Both share strong moody atmosphere'']"
  by (simp add: reasons_def topMatches_def sortedDimensions_rounding)

lemma generateConnectionReason_rounding:
  "generateConnectionReason (book ''a'' roundingScoresA) (book ''b'' roundingScoresB) similarity
     = ''Both share strong moody atmosphere. Overall ''
       @ numberToString (Math_round (similarity * 100)) @ ''% thematic match.''"
  by (simp add: generateConnectionReason_def book_def reasons_rounding)

text \<open>
  The pair with a component \<open>2 powr -60\<close>: the roundings, and the explanation in double
  precision and in exact arithmetic.
\<close>

lemma fl_gap:
  "fl (1152921504606846975 / 1152921504606846976) = 1"
  "fl (1152921504606846977 / 1152921504606846976) = 1"
proof -
  show "fl (1152921504606846975 / 1152921504606846976) = 1"
    using fl_eval[of "1152921504606846975 / 1152921504606846976" 53 9007199254740992] by simp
  show "fl (1152921504606846977 / 1152921504606846976) = 1"
    using fl_eval[of "1152921504606846977 / 1152921504606846976" 52 4503599627370496] by simp
qed

lemma dimensions_f64_gap:
  "dimensions_f64 gapScoresA gapScoresB =
     [\<lparr>name = ''moody atmosphere'', diff = 0, avg = 1\<rparr>,
      \<lparr>name = ''scientific rigor'', diff = 1, avg = 1 / 2\<rparr>,
      \<lparr>name = ''optimistic outlook'', diff = 1, avg = 1 / 2\<rparr>,
      \<lparr>name = ''philosophical depth'', diff = 1, avg = 1 / 2\<rparr>,
      \<lparr>name = ''adventurous spirit'', diff = 1, avg = 1 / 2\<rparr>]"
  by (simp add: dimensions_f64_def gapScoresA_def gapScoresB_def scores_fields ops fl_gap)

lemma compareDimensions_f64_gap:
  "compareDimensions_f64 \<lparr>name = n, diff = 1, avg = 1 / 2\<rparr> \<lparr>name = n', diff = 1, avg = 1 / 2\<rparr> = 0"
  "compareDimensions_f64 \<lparr>name = n, diff = 0, avg = 1\<rparr> \<lparr>name = n', diff = 1, avg = 1 / 2\<rparr>
     = - (5 / 4)"
  by (simp_all add: compareDimensions_f64_def ops)

lemma sortedDimensions_f64_gap:
  "sortedDimensions_f64 gapScoresA gapScoresB = dimensions_f64 gapScoresA gapScoresB"
  by (simp add: sortedDimensions_f64_def dimensions_f64_gap sort_js_def compareDimensions_f64_gap)

lemma reasons_f64_gap:
  "reasons_f64 gapScoresA gapScoresB = [''Both share strong moody atmosphere'']"
  by (simp add: reasons_f64_def topMatches_f64_def sortedDimensions_f64_gap dimensions_f64_gap)

lemma generateConnectionReason_f64_gap:
  "generateConnectionReason_f64 (book ''a'' gapScoresA) (book ''b'' gapScoresB) similarity
     = ''Both share strong moody atmosphere. Overall ''
       @ numberToString (Math_round (fmul similarity 100)) @ ''% thematic match.''"
  by (simp add: generateConnectionReason_f64_def book_def reasons_f64_gap)

lemma dimensions_gap:
  "dimensions gapScoresA gapScoresB =
     [\<lparr>name = ''moody atmosphere'', diff = 0, avg = 1\<rparr>,
      \<lparr>name = ''scientific rigor'', diff = 1, avg = 1 / 2\<rparr>,
      \<lparr>name = ''optimistic outlook'', diff = 1152921504606846975 / 1152921504606846976,
         avg = 1152921504606846977 / 2305843009213693952\<rparr>,
      \<lparr>name = ''philosophical depth'', diff = 1, avg = 1 / 2\<rparr>,
      \<lparr>name = ''adventurous spirit'', diff = 1, avg = 1 / 2\<rparr>]"
  by (simp add: dimensions_def gapScoresA_def gapScoresB_def scores_fields)

lemma sortedDimensions_gap:
  "sortedDimensions gapScoresA gapScoresB =
     [\<lparr>name = ''moody atmosphere'', diff = 0, avg = 1\<rparr>,
      \<lparr>name = ''optimistic outlook'', diff = 1152921504606846975 / 1152921504606846976,
         avg = 1152921504606846977 / 2305843009213693952\<rparr>,
      \<lparr>name = ''scientific rigor'', diff = 1, avg = 1 / 2\<rparr>,
      \<lparr>name = ''philosophical depth'', diff = 1, avg = 1 / 2\<rparr>,
      \<lparr>name = ''adventurous spirit'', diff = 1, avg = 1 / 2\<rparr>]"
  by (simp add: sortedDimensions_def dimensions_gap sort_js_def)

lemma reasons_gap:
  "reasons gapScoresA gapScoresB
     = [''Both share strong moody atmosphere'', ''similar optimistic outlook'']"
  by (simp add: reasons_def topMatches_def sortedDimensions_gap)

lemma generateConnectionReason_gap:
  "generateConnectionReason (book ''a'' gapScoresA) (book ''b'' gapScoresB) similarity
     = ''Both share strong moody atmosphere and similar optimistic outlook. Overall ''
       @ numberToString (Math_round (similarity * 100)) @ ''% thematic match.''"
  by (simp add: generateConnectionReason_def book_def reasons_gap)

lemma percentage_half:
  "numberToString (Math_round (fmul (1 / 2) 100)) = ''50''"
  "numberToString (Math_round (1 / 2 * 100)) = ''50''"
proof -
  have "fl 50 = 50" using fl_eval[of 50 47 "50 * 2 ^ 47"] by simp
  then show "numberToString (Math_round (fmul (1 / 2) 100)) = ''50''"
    by (simp add: fmul_def Math_round_def numberToString_def digits.simps)
  show "numberToString (Math_round (1 / 2 * 100)) = ''50''"
    by (simp add: Math_round_def numberToString_def digits.simps)
qed

text \<open>
  A pair for which no operation of the comparator rounds: the comparator of every two
  dimensions is the difference of their combined scores.
\<close>

lemma dimensions_f64_dyadic:
  "dimensions_f64 dyadicScores dyadicScores =
     [\<lparr>name = ''moody atmosphere'', diff = 0, avg = 0\<rparr>,
      \<lparr>name = ''scientific rigor'', diff = 0, avg = 1 / 4\<rparr>,
      \<lparr>name = ''optimistic outlook'', diff = 0, avg = 1\<rparr>,
      \<lparr>name = ''philosophical depth'', diff = 0, avg = 0\<rparr>,
      \<lparr>name = ''adventurous spirit'', diff = 0, avg = 1 / 2\<rparr>]"
  by (simp add: dimensions_f64_def dyadicScores_def scores_fields ops)

lemma compareDimensions_f64_dyadic:
  "compareDimensions_f64 \<lparr>name = ''moody atmosphere'', diff = 0, avg = 0\<rparr>
     \<lparr>name = ''moody atmosphere'', diff = 0, avg = 0\<rparr> = 0"
  "compareDimensions_f64 \<lparr>name = ''moody atmosphere'', diff = 0, avg = 0\<rparr>
     \<lparr>name = ''scientific rigor'', diff = 0, avg = 1 / 4\<rparr> = 1 / 8"
  "compareDimensions_f64 \<lparr>name = ''moody atmosphere'', diff = 0, avg = 0\<rparr>
     \<lparr>name = ''optimistic outlook'', diff = 0, avg = 1\<rparr> = 1 / 2"
  "compareDimensions_f64 \<lparr>name = ''moody atmosphere'', diff = 0, avg = 0\<rparr>
     \<lparr>name = ''philosophical depth'', diff = 0, avg = 0\<rparr> = 0"
  "compareDimensions_f64 \<lparr>name = ''moody atmosphere'', diff = 0, avg = 0\<rparr>
     \<lparr>name = ''adventurous spirit'', diff = 0, avg = 1 / 2\<rparr> = 1 / 4"
  "compareDimensions_f64 \<lparr>name = ''scientific rigor'', diff = 0, avg = 1 / 4\<rparr>
     \<lparr>name = ''moody atmosphere'', diff = 0, avg = 0\<rparr> = - (1 / 8)"
  "compareDimensions_f64 \<lparr>name = ''scientific rigor'', diff = 0, avg = 1 / 4\<rparr>
     \<lparr>name = ''scientific rigor'', diff = 0, avg = 1 / 4\<rparr> = 0"
  "compareDimensions_f64 \<lparr>name = ''scientific rigor'', diff = 0, avg = 1 / 4\<rparr>
     \<lparr>name = ''optimistic outlook'', diff = 0, avg = 1\<rparr> = 3 / 8"
  "compareDimensions_f64 \<lparr>name = ''scientific rigor'', diff = 0, avg = 1 / 4\<rparr>
     \<lparr>name = ''philosophical depth'', diff = 0, avg = 0\<rparr> = - (1 / 8)"
  "compareDimensions_f64 \<lparr>name = ''scientific rigor'', diff = 0, avg = 1 / 4\<rparr>
     \<lparr>name = ''adventurous spirit'', diff = 0, avg = 1 / 2\<rparr> = 1 / 8"
  "compareDimensions_f64 \<lparr>name = ''optimistic outlook'', diff = 0, avg = 1\<rparr>
     \<lparr>name = ''moody atmosphere'', diff = 0, avg = 0\<rparr> = - (1 / 2)"
  "compareDimensions_f64 \<lparr>name = ''optimistic outlook'', diff = 0, avg = 1\<rparr>
     \<lparr>name = ''scientific rigor'', diff = 0, avg = 1 / 4\<rparr> = - (3 / 8)"
  "compareDimensions_f64 \<lparr>name = ''optimistic outlook'', diff = 0, avg = 1\<rparr>
     \<lparr>name = ''optimistic outlook'', diff = 0, avg = 1\<rparr> = 0"
  "compareDimensions_f64 \<lparr>name = ''optimistic outlook'', diff = 0, avg = 1\<rparr>
     \<lparr>name = ''philosophical depth'', diff = 0, avg = 0\<rparr> = - (1 / 2)"
  "compareDimensions_f64 \<lparr>name = ''optimistic outlook'', diff = 0, avg = 1\<rparr>
     \<lparr>name = ''adventurous spirit'', diff = 0, avg = 1 / 2\<rparr> = - (1 / 4)"
  "compareDimensions_f64 \<lparr>name = ''philosophical depth'', diff = 0, avg = 0\<rparr>
     \<lparr>name = ''moody atmosphere'', diff = 0, avg = 0\<rparr> = 0"
  "compareDimensions_f64 \<lparr>name = ''philosophical depth'', diff = 0, avg = 0\<rparr>
     \<lparr>name = ''scientific rigor'', diff = 0, avg = 1 / 4\<rparr> = 1 / 8"
  "compareDimensions_f64 \<lparr>name = ''philosophical depth'', diff = 0, avg = 0\<rparr>
     \<lparr>name = ''optimistic outlook'', diff = 0, avg = 1\<rparr> = 1 / 2"
  "compareDimensions_f64 \<lparr>name = ''philosophical depth'', diff = 0, avg = 0\<rparr>
     \<lparr>name = ''philosophical depth'', diff = 0, avg = 0\<rparr> = 0"
  "compareDimensions_f64 \<lparr>name = ''philosophical depth'', diff = 0, avg = 0\<rparr>
     \<lparr>name = ''adventurous spirit'', diff = 0, avg = 1 / 2\<rparr> = 1 / 4"
  "compareDimensions_f64 \<lparr>name = ''adventurous spirit'', diff = 0, avg = 1 / 2\<rparr>
     \<lparr>name = ''moody atmosphere'', diff = 0, avg = 0\<rparr> = - (1 / 4)"
  "compareDimensions_f64 \<lparr>name = ''adventurous spirit'', diff = 0, avg = 1 / 2\<rparr>
     \<lparr>name = ''scientific rigor'', diff = 0, avg = 1 / 4\<rparr> = - (1 / 8)"
  "compareDimensions_f64 \<lparr>name = ''adventurous spirit'', diff = 0, avg = 1 / 2\<rparr>
     \<lparr>name = ''optimistic outlook'', diff = 0, avg = 1\<rparr> = 1 / 4"
  "compareDimensions_f64 \<lparr>name = ''adventurous spirit'', diff = 0, avg = 1 / 2\<rparr>
     \<lparr>name = ''philosophical depth'', diff = 0, avg = 0\<rparr> = - (1 / 4)"
  "compareDimensions_f64 \<lparr>name = ''adventurous spirit'', diff = 0, avg = 1 / 2\<rparr>
     \<lparr>name = ''adventurous spirit'', diff = 0, avg = 1 / 2\<rparr> = 0"
  by (simp_all add: compareDimensions_f64_def ops)

lemma compareDimensions_f64_dyadic_agrees:
  "\<forall>x\<in>set (dimensions_f64 dyadicScores dyadicScores).
     \<forall>y\<in>set (dimensions_f64 dyadicScores dyadicScores).
       (compareDimensions_f64 x y \<le> 0) = (combinedScore x \<le> combinedScore y)"
  by (simp add: dimensions_f64_dyadic compareDimensions_f64_dyadic combinedScore_def)

lemma sort_key_dyadic:
  "sort_key combinedScore (dimensions_f64 dyadicScores dyadicScores) =
     [\<lparr>name = ''optimistic outlook'', diff = 0, avg = 1\<rparr>,
      \<lparr>name = ''adventurous spirit'', diff = 0, avg = 1 / 2\<rparr>,
      \<lparr>name = ''scientific rigor'', diff = 0, avg = 1 / 4\<rparr>,
      \<lparr>name = ''moody atmosphere'', diff = 0, avg = 0\<rparr>,
      \<lparr>name = ''philosophical depth'', diff = 0, avg = 0\<rparr>]"
  by (simp add: dimensions_f64_dyadic combinedScore_def sort_key_def)

text \<open>
  The percentage: the double nearest to 0.015 is less than 0.015, and its product with 100
  is rounded to 1.5.
\<close>

lemma percentage_rounding:
  "fl (15 / 1000) = 1080863910568919 / 2 ^ 56"
  "Math_round (fmul (1080863910568919 / 2 ^ 56) 100) = 2"
  "Math_round (1080863910568919 / 2 ^ 56 * 100) = 1"
proof -
  show "fl (15 / 1000) = 1080863910568919 / 2 ^ 56"
    using fl_eval[of "15 / 1000" 59 8646911284551352] by simp
  have f: "fl (1080863910568919 / 2 ^ 56 * 100) = 3 / 2"
    using fl_eval[of "1080863910568919 / 2 ^ 56 * 100" 52 "3 * 2 ^ 51"] by simp
  have "Math_round (fmul (1080863910568919 / 2 ^ 56) 100) = \<lfloor>(3 / 2 + 1 / 2 :: real)\<rfloor>"
    unfolding fmul_def Math_round_def f ..
  also have "\<dots> = 2" by simp
  finally show "Math_round (fmul (1080863910568919 / 2 ^ 56) 100) = 2" .
  show "Math_round (1080863910568919 / 2 ^ 56 * 100) = 1"
    by (simp add: Math_round_def)
qed


text \<open>
  C6, as the claim states it, fails in double precision. For the vectors
  \<open>roundingScoresA\<close> and \<open>roundingScoresB\<close> the differences and averages are computed
  without rounding error, and the combined score of the optimistic dimension is less than
  that of the scientific dimension, by \<open>2 powr -56\<close>. The comparator rounds
  \<open>y.avg - x.avg\<close> and returns 0 for the two, so the sort leaves the scientific dimension
  in second place, before the optimistic one, and the explanation has a clause for it.
  Ranked by the combined score, the second dimension is the optimistic one, whose average
  does not exceed 0.5, and there is no second clause.

  For the vectors \<open>gapScoresA\<close> and \<open>gapScoresB\<close>, whose components are 0, 1 and
  \<open>2 powr -60\<close>, the difference and the average of the optimistic dimension are rounded
  to 1 and 0.5. Its combined score is less than that of the scientific dimension and its
  average exceeds 0.5, but the sort leaves the scientific dimension in second place and the
  explanation has no second clause; ranked by the combined score, the second dimension is
  the optimistic one and the explanation has a clause for it.
\<close>

theorem generateConnectionReason_f64_counterexample:
  "map name (sortedDimensions_f64 roundingScoresA roundingScoresB)
     = [''moody atmosphere'', ''scientific rigor'', ''optimistic outlook'',
        ''philosophical depth'', ''adventurous spirit'']
   \<and> name (dimensions roundingScoresA roundingScoresB ! 1) = ''scientific rigor''
   \<and> name (dimensions roundingScoresA roundingScoresB ! 2) = ''optimistic outlook''
   \<and> dimensions_f64 roundingScoresA roundingScoresB = dimensions roundingScoresA roundingScoresB
   \<and> compareDimensions_f64 (dimensions_f64 roundingScoresA roundingScoresB ! 1)
         (dimensions_f64 roundingScoresA roundingScoresB ! 2) = 0
   \<and> compareDimensions_f64 (dimensions_f64 roundingScoresA roundingScoresB ! 2)
         (dimensions_f64 roundingScoresA roundingScoresB ! 1) = 0
   \<and> combinedScore (dimensions roundingScoresA roundingScoresB ! 2)
       < combinedScore (dimensions roundingScoresA roundingScoresB ! 1)
   \<and> generateConnectionReason_f64 (book ''a'' roundingScoresA) (book ''b'' roundingScoresB) (1 / 2)
       = ''Both share strong moody atmosphere and similar scientific rigor. Overall 50% thematic match.''
   \<and> generateConnectionReason (book ''a'' roundingScoresA) (book ''b'' roundingScoresB) (1 / 2)
       = ''Both share strong moody atmosphere. Overall 50% thematic match.''
   \<and> (\<forall>similarity.
         generateConnectionReason_f64 (book ''a'' roundingScoresA) (book ''b'' roundingScoresB)
           similarity
         \<noteq> generateConnectionReason (book ''a'' roundingScoresA) (book ''b'' roundingScoresB)
             similarity)
   \<and> map name (sortedDimensions_f64 gapScoresA gapScoresB)
     = [''moody atmosphere'', ''scientific rigor'', ''optimistic outlook'',
        ''philosophical depth'', ''adventurous spirit'']
   \<and> name (dimensions gapScoresA gapScoresB ! 1) = ''scientific rigor''
   \<and> name (dimensions gapScoresA gapScoresB ! 2) = ''optimistic outlook''
   \<and> combinedScore (dimensions gapScoresA gapScoresB ! 2)
       < combinedScore (dimensions gapScoresA gapScoresB ! 1)
   \<and> 0.5 < avg (dimensions gapScoresA gapScoresB ! 2)
   \<and> avg (dimensions_f64 gapScoresA gapScoresB ! 2) = 0.5
   \<and> generateConnectionReason_f64 (book ''a'' gapScoresA) (book ''b'' gapScoresB) (1 / 2)
       = ''Both share strong moody atmosphere. Overall 50% thematic match.''
   \<and> generateConnectionReason (book ''a'' gapScoresA) (book ''b'' gapScoresB) (1 / 2)
       = ''Both share strong moody atmosphere and similar optimistic outlook. Overall 50% thematic match.''
   \<and> (\<forall>similarity.
         generateConnectionReason_f64 (book ''a'' gapScoresA) (book ''b'' gapScoresB) similarity
         \<noteq> generateConnectionReason (book ''a'' gapScoresA) (book ''b'' gapScoresB) similarity)"
proof (intro conjI)
  show "map name (sortedDimensions_f64 roundingScoresA roundingScoresB)
     = [''moody atmosphere'', ''scientific rigor'', ''optimistic outlook'',
        ''philosophical depth'', ''adventurous spirit'']"
    by (simp add: sortedDimensions_f64_rounding)
  show "name (dimensions roundingScoresA roundingScoresB ! 1) = ''scientific rigor''"
    "name (dimensions roundingScoresA roundingScoresB ! 2) = ''optimistic outlook''"
    by (simp_all add: dimensions_rounding)
  show "dimensions_f64 roundingScoresA roundingScoresB = dimensions roundingScoresA roundingScoresB"
    by (simp add: dimensions_f64_rounding dimensions_rounding)
  show "compareDimensions_f64 (dimensions_f64 roundingScoresA roundingScoresB ! 1)
         (dimensions_f64 roundingScoresA roundingScoresB ! 2) = 0"
    "compareDimensions_f64 (dimensions_f64 roundingScoresA roundingScoresB ! 2)
         (dimensions_f64 roundingScoresA roundingScoresB ! 1) = 0"
    by (simp_all add: dimensions_f64_rounding compareDimensions_f64_rounding)
  show "combinedScore (dimensions roundingScoresA roundingScoresB ! 2)
       < combinedScore (dimensions roundingScoresA roundingScoresB ! 1)"
    by (simp add: dimensions_rounding combinedScore_def)
  show "generateConnectionReason_f64 (book ''a'' roundingScoresA) (book ''b'' roundingScoresB) (1 / 2)
       = ''Both share strong moody atmosphere and similar scientific rigor. Overall 50% thematic match.''"
    by (simp add: generateConnectionReason_f64_rounding percentage_half(1))
  show "generateConnectionReason (book ''a'' roundingScoresA) (book ''b'' roundingScoresB) (1 / 2)
       = ''Both share strong moody atmosphere. Overall 50% thematic match.''"
    using percentage_half(2) by (simp add: generateConnectionReason_rounding)
  show "\<forall>similarity.
         generateConnectionReason_f64 (book ''a'' roundingScoresA) (book ''b'' roundingScoresB)
           similarity
         \<noteq> generateConnectionReason (book ''a'' roundingScoresA) (book ''b'' roundingScoresB)
             similarity"
    by (simp add: generateConnectionReason_f64_rounding generateConnectionReason_rounding)
  show "map name (sortedDimensions_f64 gapScoresA gapScoresB)
     = [''moody atmosphere'', ''scientific rigor'', ''optimistic outlook'',
        ''philosophical depth'', ''adventurous spirit'']"
    by (simp add: sortedDimensions_f64_gap dimensions_f64_gap)
  show "name (dimensions gapScoresA gapScoresB ! 1) = ''scientific rigor''"
    "name (dimensions gapScoresA gapScoresB ! 2) = ''optimistic outlook''"
    by (simp_all add: dimensions_gap)
  show "combinedScore (dimensions gapScoresA gapScoresB ! 2)
       < combinedScore (dimensions gapScoresA gapScoresB ! 1)"
    by (simp add: dimensions_gap combinedScore_def)
  show "0.5 < avg (dimensions gapScoresA gapScoresB ! 2)"
    by (simp add: dimensions_gap)
  show "avg (dimensions_f64 gapScoresA gapScoresB ! 2) = 0.5"
    by (simp add: dimensions_f64_gap)
  show "generateConnectionReason_f64 (book ''a'' gapScoresA) (book ''b'' gapScoresB) (1 / 2)
       = ''Both share strong moody atmosphere. Overall 50% thematic match.''"
    by (simp add: generateConnectionReason_f64_gap percentage_half(1))
  show "generateConnectionReason (book ''a'' gapScoresA) (book ''b'' gapScoresB) (1 / 2)
       = ''Both share strong moody atmosphere and similar optimistic outlook. Overall 50% thematic match.''"
    using percentage_half(2) by (simp add: generateConnectionReason_gap)
  show "\<forall>similarity.
         generateConnectionReason_f64 (book ''a'' gapScoresA) (book ''b'' gapScoresB) similarity
         \<noteq> generateConnectionReason (book ''a'' gapScoresA) (book ''b'' gapScoresB) similarity"
    by (simp add: generateConnectionReason_f64_gap generateConnectionReason_gap)
qed

text \<open>
  C6, amended. In exact arithmetic and in double precision alike, each dimension has the
  absolute difference and the average of the two books' components, the sorted list is a
  rearrangement of the five dimensions, and its first two are taken. The reasons are a
  clause for the first when its average exceeds 0.5, followed by a clause for the second
  when its average exceeds 0.5. When neither does, the result is the generic sentence
  with the similarity as a percentage, rounded to the nearest integer; otherwise the
  clauses are joined and the percentage is appended. In exact arithmetic the sorted list
  is the ranking in ascending order of the combined score, the difference minus half the
  average, dimensions of equal score keeping their order. In double precision the
  differences, the averages, the comparator and the product of the similarity and 100
  are rounded, and the sorted list is that ranking, by the combined scores of the
  computed differences and averages, whenever the comparator orders every two of the five
  dimensions as their combined scores do.
\<close>

theorem generateConnectionReason_ranking:
  "dimensions a b =
     [\<lparr>name = ''moody atmosphere'', diff = \<bar>moody a - moody b\<bar>,
         avg = (moody a + moody b) / 2\<rparr>,
      \<lparr>name = ''scientific rigor'', diff = \<bar>scientific a - scientific b\<bar>,
         avg = (scientific a + scientific b) / 2\<rparr>,
      \<lparr>name = ''optimistic outlook'', diff = \<bar>optimistic a - optimistic b\<bar>,
         avg = (optimistic a + optimistic b) / 2\<rparr>,
      \<lparr>name = ''philosophical depth'', diff = \<bar>philosophical a - philosophical b\<bar>,
         avg = (philosophical a + philosophical b) / 2\<rparr>,
      \<lparr>name = ''adventurous spirit'', diff = \<bar>adventurous a - adventurous b\<bar>,
         avg = (adventurous a + adventurous b) / 2\<rparr>]
   \<and> sortedDimensions a b = sort_key combinedScore (dimensions a b)
   \<and> sorted (map combinedScore (sortedDimensions a b))
   \<and> mset (sortedDimensions a b) = mset (dimensions a b)
   \<and> topMatches a b = take 2 (sortedDimensions a b) \<and> length (topMatches a b) = 2
   \<and> reasons a b
       = (if 0.5 < avg (topMatches a b ! 0)
          then [''Both share strong '' @ name (topMatches a b ! 0)] else [])
         @ (if 0.5 < avg (topMatches a b ! 1)
            then [''similar '' @ name (topMatches a b ! 1)] else [])
   \<and> generateConnectionReason (bookA\<lparr>sentimentScores := a\<rparr>) (bookB\<lparr>sentimentScores := b\<rparr>)
         similarity
       = (if avg (topMatches a b ! 0) \<le> 0.5 \<and> avg (topMatches a b ! 1) \<le> 0.5
          then ''These works share a '' @ numberToString (Math_round (similarity * 100))
               @ ''% thematic similarity based on their emotional and intellectual profiles.''
          else join '' and '' (reasons a b) @ ''. Overall ''
               @ numberToString (Math_round (similarity * 100)) @ ''% thematic match.'')
   \<and> dimensions_f64 a b =
     [\<lparr>name = ''moody atmosphere'', diff = \<bar>fsub (moody a) (moody b)\<bar>,
         avg = fdiv (fadd (moody a) (moody b)) 2\<rparr>,
      \<lparr>name = ''scientific rigor'', diff = \<bar>fsub (scientific a) (scientific b)\<bar>,
         avg = fdiv (fadd (scientific a) (scientific b)) 2\<rparr>,
      \<lparr>name = ''optimistic outlook'', diff = \<bar>fsub (optimistic a) (optimistic b)\<bar>,
         avg = fdiv (fadd (optimistic a) (optimistic b)) 2\<rparr>,
      \<lparr>name = ''philosophical depth'', diff = \<bar>fsub (philosophical a) (philosophical b)\<bar>,
         avg = fdiv (fadd (philosophical a) (philosophical b)) 2\<rparr>,
      \<lparr>name = ''adventurous spirit'', diff = \<bar>fsub (adventurous a) (adventurous b)\<bar>,
         avg = fdiv (fadd (adventurous a) (adventurous b)) 2\<rparr>]
   \<and> mset (sortedDimensions_f64 a b) = mset (dimensions_f64 a b)
   \<and> topMatches_f64 a b = take 2 (sortedDimensions_f64 a b)
   \<and> length (topMatches_f64 a b) = 2
   \<and> reasons_f64 a b
       = (if 0.5 < avg (topMatches_f64 a b ! 0)
          then [''Both share strong '' @ name (topMatches_f64 a b ! 0)] else [])
         @ (if 0.5 < avg (topMatches_f64 a b ! 1)
            then [''similar '' @ name (topMatches_f64 a b ! 1)] else [])
   \<and> generateConnectionReason_f64 (bookA\<lparr>sentimentScores := a\<rparr>)
         (bookB\<lparr>sentimentScores := b\<rparr>) similarity
       = (if avg (topMatches_f64 a b ! 0) \<le> 0.5 \<and> avg (topMatches_f64 a b ! 1) \<le> 0.5
          then ''These works share a '' @ numberToString (Math_round (fmul similarity 100))
               @ ''% thematic similarity based on their emotional and intellectual profiles.''
          else join '' and '' (reasons_f64 a b) @ ''. Overall ''
               @ numberToString (Math_round (fmul similarity 100)) @ ''% thematic match.'')
   \<and> ((\<forall>x\<in>set (dimensions_f64 a b). \<forall>y\<in>set (dimensions_f64 a b).
          (compareDimensions_f64 x y \<le> 0) = (combinedScore x \<le> combinedScore y)) \<longrightarrow>
        sortedDimensions_f64 a b = sort_key combinedScore (dimensions_f64 a b))"
proof (intro conjI)
  show "dimensions a b =
     [\<lparr>name = ''moody atmosphere'', diff = \<bar>moody a - moody b\<bar>,
         avg = (moody a + moody b) / 2\<rparr>,
      \<lparr>name = ''scientific rigor'', diff = \<bar>scientific a - scientific b\<bar>,
         avg = (scientific a + scientific b) / 2\<rparr>,
      \<lparr>name = ''optimistic outlook'', diff = \<bar>optimistic a - optimistic b\<bar>,
         avg = (optimistic a + optimistic b) / 2\<rparr>,
      \<lparr>name = ''philosophical depth'', diff = \<bar>philosophical a - philosophical b\<bar>,
         avg = (philosophical a + philosophical b) / 2\<rparr>,
      \<lparr>name = ''adventurous spirit'', diff = \<bar>adventurous a - adventurous b\<bar>,
         avg = (adventurous a + adventurous b) / 2\<rparr>]"
    by (simp add: dimensions_def)
  show "sorted (map combinedScore (sortedDimensions a b))"
    unfolding sortedDimensions_sort_key by (rule sorted_sort_key)
  show "mset (sortedDimensions a b) = mset (dimensions a b)"
    by (simp add: sortedDimensions_def mset_sort_js)
  show "sortedDimensions a b = sort_key combinedScore (dimensions a b)"
    by (rule sortedDimensions_sort_key)
  show "topMatches a b = take 2 (sortedDimensions a b)"
    by (simp add: topMatches_def)
  show "length (topMatches a b) = 2"
    by (simp add: topMatches_def length_sortedDimensions)
  show r: "reasons a b
       = (if 0.5 < avg (topMatches a b ! 0)
          then [''Both share strong '' @ name (topMatches a b ! 0)] else [])
         @ (if 0.5 < avg (topMatches a b ! 1)
            then [''similar '' @ name (topMatches a b ! 1)] else [])"
    by (simp add: reasons_def Let_def)
  show "generateConnectionReason (bookA\<lparr>sentimentScores := a\<rparr>) (bookB\<lparr>sentimentScores := b\<rparr>)
         similarity
       = (if avg (topMatches a b ! 0) \<le> 0.5 \<and> avg (topMatches a b ! 1) \<le> 0.5
          then ''These works share a '' @ numberToString (Math_round (similarity * 100))
               @ ''% thematic similarity based on their emotional and intellectual profiles.''
          else join '' and '' (reasons a b) @ ''. Overall ''
               @ numberToString (Math_round (similarity * 100)) @ ''% thematic match.'')"
  proof (cases "avg (topMatches a b ! 0) \<le> 0.5 \<and> avg (topMatches a b ! 1) \<le> 0.5")
    case True
    then have "reasons a b = []" unfolding r by auto
    with True show ?thesis by (simp add: generateConnectionReason_def)
  next
    case False
    then have "reasons a b \<noteq> []" unfolding r by auto
    with False show ?thesis by (simp add: generateConnectionReason_def Let_def)
  qed
  show "dimensions_f64 a b =
     [\<lparr>name = ''moody atmosphere'', diff = \<bar>fsub (moody a) (moody b)\<bar>,
         avg = fdiv (fadd (moody a) (moody b)) 2\<rparr>,
      \<lparr>name = ''scientific rigor'', diff = \<bar>fsub (scientific a) (scientific b)\<bar>,
         avg = fdiv (fadd (scientific a) (scientific b)) 2\<rparr>,
      \<lparr>name = ''optimistic outlook'', diff = \<bar>fsub (optimistic a) (optimistic b)\<bar>,
         avg = fdiv (fadd (optimistic a) (optimistic b)) 2\<rparr>,
      \<lparr>name = ''philosophical depth'', diff = \<bar>fsub (philosophical a) (philosophical b)\<bar>,
         avg = fdiv (fadd (philosophical a) (philosophical b)) 2\<rparr>,
      \<lparr>name = ''adventurous spirit'', diff = \<bar>fsub (adventurous a) (adventurous b)\<bar>,
         avg = fdiv (fadd (adventurous a) (adventurous b)) 2\<rparr>]"
    by (simp add: dimensions_f64_def)
  show "mset (sortedDimensions_f64 a b) = mset (dimensions_f64 a b)"
    by (simp add: sortedDimensions_f64_def mset_sort_js)
  show "topMatches_f64 a b = take 2 (sortedDimensions_f64 a b)"
    by (simp add: topMatches_f64_def)
  show "length (topMatches_f64 a b) = 2"
    by (simp add: topMatches_f64_def sortedDimensions_f64_def length_sort_js dimensions_f64_def)
  show r64: "reasons_f64 a b
       = (if 0.5 < avg (topMatches_f64 a b ! 0)
          then [''Both share strong '' @ name (topMatches_f64 a b ! 0)] else [])
         @ (if 0.5 < avg (topMatches_f64 a b ! 1)
            then [''similar '' @ name (topMatches_f64 a b ! 1)] else [])"
    by (simp add: reasons_f64_def Let_def)
  show "generateConnectionReason_f64 (bookA\<lparr>sentimentScores := a\<rparr>)
         (bookB\<lparr>sentimentScores := b\<rparr>) similarity
       = (if avg (topMatches_f64 a b ! 0) \<le> 0.5 \<and> avg (topMatches_f64 a b ! 1) \<le> 0.5
          then ''These works share a '' @ numberToString (Math_round (fmul similarity 100))
               @ ''% thematic similarity based on their emotional and intellectual profiles.''
          else join '' and '' (reasons_f64 a b) @ ''. Overall ''
               @ numberToString (Math_round (fmul similarity 100)) @ ''% thematic match.'')"
  proof (cases "avg (topMatches_f64 a b ! 0) \<le> 0.5 \<and> avg (topMatches_f64 a b ! 1) \<le> 0.5")
    case True
    then have "reasons_f64 a b = []" unfolding r64 by auto
    with True show ?thesis by (simp add: generateConnectionReason_f64_def)
  next
    case False
    then have "reasons_f64 a b \<noteq> []" unfolding r64 by auto
    with False show ?thesis by (simp add: generateConnectionReason_f64_def Let_def)
  qed
  show "(\<forall>x\<in>set (dimensions_f64 a b). \<forall>y\<in>set (dimensions_f64 a b).
          (compareDimensions_f64 x y \<le> 0) = (combinedScore x \<le> combinedScore y)) \<longrightarrow>
        sortedDimensions_f64 a b = sort_key combinedScore (dimensions_f64 a b)"
  proof
    assume h: "\<forall>x\<in>set (dimensions_f64 a b). \<forall>y\<in>set (dimensions_f64 a b).
          (compareDimensions_f64 x y \<le> 0) = (combinedScore x \<le> combinedScore y)"
    show "sortedDimensions_f64 a b = sort_key combinedScore (dimensions_f64 a b)"
      unfolding sortedDimensions_f64_def
      by (rule sort_js_sort_key_on) (use h in blast)
  qed
qed

theorem generateConnectionReason_ranking_witness:
  "0.5 < avg (topMatches rankedScoresA rankedScoresB ! 0)
   \<and> 0.5 < avg (topMatches rankedScoresA rankedScoresB ! 1)
   \<and> map name (sort_key combinedScore (dimensions rankedScoresA rankedScoresB))
       = [''scientific rigor'', ''adventurous spirit'', ''philosophical depth'',
          ''optimistic outlook'', ''moody atmosphere'']
   \<and> generateConnectionReason (book ''a'' rankedScoresA) (book ''b'' rankedScoresB) (7 / 8)
       = ''Both share strong scientific rigor and similar adventurous spirit. Overall 88% thematic match.''
   \<and> avg (topMatches halfScores halfScores ! 0) \<le> 0.5
   \<and> avg (topMatches halfScores halfScores ! 1) \<le> 0.5
   \<and> generateConnectionReason (book ''a'' halfScores) (book ''b'' halfScores) 1
       = ''These works share a 100% thematic similarity based on their emotional and intellectual profiles.''
   \<and> 0.5 < avg (topMatches_f64 roundingScoresA roundingScoresB ! 0)
   \<and> 0.5 < avg (topMatches_f64 roundingScoresA roundingScoresB ! 1)
   \<and> generateConnectionReason_f64 (book ''a'' roundingScoresA) (book ''b'' roundingScoresB) (1 / 2)
       = ''Both share strong moody atmosphere and similar scientific rigor. Overall 50% thematic match.''
   \<and> map name (sortedDimensions_f64 dyadicScores dyadicScores)
       = [''optimistic outlook'', ''adventurous spirit'', ''scientific rigor'',
          ''moody atmosphere'', ''philosophical depth'']"
proof -
  have b: "(book i v)\<lparr>sentimentScores := v\<rparr> = book i v" for i v
    by (simp add: book_def)
  note t1 = generateConnectionReason_ranking
    [of rankedScoresA rankedScoresB "book ''a'' rankedScoresA" "book ''b'' rankedScoresB" "7 / 8"]
  note t2 = generateConnectionReason_ranking
    [of halfScores halfScores "book ''a'' halfScores" "book ''b'' halfScores" 1]
  have a1: "0.5 < avg (topMatches rankedScoresA rankedScoresB ! 0)"
    "0.5 < avg (topMatches rankedScoresA rankedScoresB ! 1)"
    by (simp_all add: topMatches_ranked)
  have a2: "avg (topMatches halfScores halfScores ! 0) \<le> 0.5"
    "avg (topMatches halfScores halfScores ! 1) \<le> 0.5"
    by (simp_all add: topMatches_half)
  have s1: "sortedDimensions rankedScoresA rankedScoresB
              = sort_key combinedScore (dimensions rankedScoresA rankedScoresB)"
    by (rule t1[THEN conjunct2, THEN conjunct1])
  have n1: "map name (sort_key combinedScore (dimensions rankedScoresA rankedScoresB))
       = [''scientific rigor'', ''adventurous spirit'', ''philosophical depth'',
          ''optimistic outlook'', ''moody atmosphere'']"
    unfolding s1[symmetric]
    by (simp add: sortedDimensions_def dimensions_def rankedScoresA_def rankedScoresB_def
        scores_fields sort_js_def)
  have r1: "reasons rankedScoresA rankedScoresB
      = [''Both share strong scientific rigor'', ''similar adventurous spirit'']"
    unfolding t1[THEN conjunct2, THEN conjunct2, THEN conjunct2, THEN conjunct2,
        THEN conjunct2, THEN conjunct2, THEN conjunct1]
    by (simp add: topMatches_ranked)
  have g1: "generateConnectionReason (book ''a'' rankedScoresA) (book ''b'' rankedScoresB) (7 / 8)
       = ''Both share strong scientific rigor and similar adventurous spirit. Overall 88% thematic match.''"
    using t1[THEN conjunct2, THEN conjunct2, THEN conjunct2, THEN conjunct2,
        THEN conjunct2, THEN conjunct2, THEN conjunct2, THEN conjunct1] a1 percentages(1)
    unfolding b r1 by simp
  have g2: "generateConnectionReason (book ''a'' halfScores) (book ''b'' halfScores) 1
       = ''These works share a 100% thematic similarity based on their emotional and intellectual profiles.''"
    using t2[THEN conjunct2, THEN conjunct2, THEN conjunct2, THEN conjunct2,
        THEN conjunct2, THEN conjunct2, THEN conjunct2, THEN conjunct1] a2 percentages(2)
    unfolding b by simp
  note t3 = generateConnectionReason_ranking
    [of roundingScoresA roundingScoresB "book ''a'' roundingScoresA" "book ''b'' roundingScoresB"
        "1 / 2"]
  have a3: "0.5 < avg (topMatches_f64 roundingScoresA roundingScoresB ! 0)"
    "0.5 < avg (topMatches_f64 roundingScoresA roundingScoresB ! 1)"
    by (simp_all add: topMatches_f64_def sortedDimensions_f64_rounding)
  have g3: "generateConnectionReason_f64 (book ''a'' roundingScoresA) (book ''b'' roundingScoresB)
         (1 / 2)
       = ''Both share strong moody atmosphere and similar scientific rigor. Overall 50% thematic match.''"
    using t3[THEN conjunct2, THEN conjunct2, THEN conjunct2, THEN conjunct2, THEN conjunct2,
        THEN conjunct2, THEN conjunct2, THEN conjunct2, THEN conjunct2, THEN conjunct2,
        THEN conjunct2, THEN conjunct2, THEN conjunct2] a3 percentage_half(1)
    unfolding b reasons_f64_rounding by simp
  note t4 = generateConnectionReason_ranking
    [of dyadicScores dyadicScores "book ''a'' dyadicScores" "book ''b'' dyadicScores" 1]
  have "sortedDimensions_f64 dyadicScores dyadicScores
          = sort_key combinedScore (dimensions_f64 dyadicScores dyadicScores)"
    using t4[THEN conjunct2, THEN conjunct2, THEN conjunct2, THEN conjunct2, THEN conjunct2,
        THEN conjunct2, THEN conjunct2, THEN conjunct2, THEN conjunct2, THEN conjunct2,
        THEN conjunct2, THEN conjunct2, THEN conjunct2, THEN conjunct2]
      compareDimensions_f64_dyadic_agrees
    by (rule mp)
  then have n4: "map name (sortedDimensions_f64 dyadicScores dyadicScores)
       = [''optimistic outlook'', ''adventurous spirit'', ''scientific rigor'',
          ''moody atmosphere'', ''philosophical depth'']"
    by (simp add: sort_key_dyadic)
  show ?thesis
    by (intro conjI) (fact a1 a2 a3 n1 g1 g2 g3 n4)+
qed

end
